theory Spec2Isabelle
  imports Main "HOL-Library.Sublist"
begin

section \<open>Go strings\<close>

text \<open>
  A Go \<^verbatim>\<open>string\<close> is a sequence of bytes; \<^verbatim>\<open>len\<close> counts bytes. It is modelled
  as a \<^typ>\<open>string\<close>, one \<^typ>\<open>char\<close> per byte. The functions of package
  \<^verbatim>\<open>strings\<close> that the monitor calls are given here under their Go names.
\<close>

definition HasPrefix :: "string \<Rightarrow> string \<Rightarrow> bool" where
  "HasPrefix s p = prefix p s"

definition HasSuffix :: "string \<Rightarrow> string \<Rightarrow> bool" where
  "HasSuffix s p = suffix p s"

definition Contains :: "string \<Rightarrow> string \<Rightarrow> bool" where
  "Contains s sub = sublist sub s"

definition TrimPrefix :: "string \<Rightarrow> string \<Rightarrow> string" where
  "TrimPrefix s p = (if HasPrefix s p then drop (length p) s else s)"

text \<open>
  \<^verbatim>\<open>strings.ReplaceAll(s, old, new)\<close> replaces the non-overlapping occurrences of
  \<^verbatim>\<open>old\<close>, scanning from the left. The monitor only calls it with a non-empty
  \<^verbatim>\<open>old\<close>; the equation for the empty pattern (where Go inserts \<^verbatim>\<open>new\<close> at
  every rune boundary) is not used by any definition below.
\<close>

fun ReplaceAll :: "string \<Rightarrow> string \<Rightarrow> string \<Rightarrow> string" where
  "ReplaceAll s [] new = s"
| "ReplaceAll [] (b # bs) new = []"
| "ReplaceAll (c # s) (b # bs) new =
     (if prefix (b # bs) (c # s)
      then new @ ReplaceAll (drop (length bs) s) (b # bs) new
      else c # ReplaceAll s (b # bs) new)"

text \<open>
  \<^verbatim>\<open>strings.TrimSpace\<close> removes leading and trailing white space as defined by
  Unicode. A white-space rune is removed from the front exactly when the string starts
  with its UTF-8 encoding, and from the back exactly when the string ends with it
  (an encoding is a lead byte followed by continuation bytes, so decoding backwards
  finds the same rune). The encodings of the runes of \<^verbatim>\<open>unicode.IsSpace\<close>:
  U+0009..U+000D, U+0020, U+0085, U+00A0, U+1680, U+2000..U+200A, U+2028, U+2029,
  U+202F, U+205F, U+3000.
\<close>

definition space_encodings :: "string list" where
  "space_encodings =
     [[CHR 0x09], [CHR 0x0A], [CHR 0x0B], [CHR 0x0C], [CHR 0x0D], [CHR 0x20],
      [CHR 0xC2, CHR 0x85], [CHR 0xC2, CHR 0xA0],
      [CHR 0xE1, CHR 0x9A, CHR 0x80],
      [CHR 0xE2, CHR 0x80, CHR 0x80], [CHR 0xE2, CHR 0x80, CHR 0x81],
      [CHR 0xE2, CHR 0x80, CHR 0x82], [CHR 0xE2, CHR 0x80, CHR 0x83],
      [CHR 0xE2, CHR 0x80, CHR 0x84], [CHR 0xE2, CHR 0x80, CHR 0x85],
      [CHR 0xE2, CHR 0x80, CHR 0x86], [CHR 0xE2, CHR 0x80, CHR 0x87],
      [CHR 0xE2, CHR 0x80, CHR 0x88], [CHR 0xE2, CHR 0x80, CHR 0x89],
      [CHR 0xE2, CHR 0x80, CHR 0x8A],
      [CHR 0xE2, CHR 0x80, CHR 0xA8], [CHR 0xE2, CHR 0x80, CHR 0xA9],
      [CHR 0xE2, CHR 0x80, CHR 0xAF], [CHR 0xE2, CHR 0x81, CHR 0x9F],
      [CHR 0xE3, CHR 0x80, CHR 0x80]]"

text \<open>The length of the white-space rune a string starts with, if it starts with one.\<close>

definition leading_space :: "string \<Rightarrow> nat option" where
  "leading_space s = map_option length (find (\<lambda>e. prefix e s) space_encodings)"

definition trailing_space :: "string \<Rightarrow> nat option" where
  "trailing_space s = map_option length (find (\<lambda>e. suffix e s) space_encodings)"

function TrimLeftSpace :: "string \<Rightarrow> string" where
  "TrimLeftSpace s =
     (case leading_space s of None \<Rightarrow> s | Some n \<Rightarrow> TrimLeftSpace (drop n s))"
  by pat_completeness auto

function TrimRightSpace :: "string \<Rightarrow> string" where
  "TrimRightSpace s =
     (case trailing_space s of None \<Rightarrow> s
      | Some n \<Rightarrow> TrimRightSpace (take (length s - n) s))"
  by pat_completeness auto

lemma space_encodings_nonempty: "e \<in> set space_encodings \<Longrightarrow> e \<noteq> []"
  by (auto simp: space_encodings_def)

lemma leading_space_SomeD:
  assumes "leading_space s = Some n"
  shows "0 < n \<and> n \<le> length s"
proof -
  from assms obtain e where e: "find (\<lambda>e. prefix e s) space_encodings = Some e" "n = length e"
    by (auto simp: leading_space_def)
  then have "e \<in> set space_encodings" "prefix e s"
    by (auto simp: find_Some_iff)
  then show ?thesis
    using e(2) space_encodings_nonempty prefix_length_le by auto
qed

lemma trailing_space_SomeD:
  assumes "trailing_space s = Some n"
  shows "0 < n \<and> n \<le> length s"
proof -
  from assms obtain e where e: "find (\<lambda>e. suffix e s) space_encodings = Some e" "n = length e"
    by (auto simp: trailing_space_def)
  then have "e \<in> set space_encodings" "suffix e s"
    by (auto simp: find_Some_iff)
  then show ?thesis
    using e(2) space_encodings_nonempty suffix_length_le by auto
qed

termination TrimLeftSpace
  by (relation "measure length") (auto dest: leading_space_SomeD)

termination TrimRightSpace
  by (relation "measure length") (auto dest: trailing_space_SomeD)

declare TrimLeftSpace.simps [simp del]
declare TrimRightSpace.simps [simp del]

definition TrimSpace :: "string \<Rightarrow> string" where
  "TrimSpace s = TrimRightSpace (TrimLeftSpace s)"

section \<open>Title normalization\<close>

text \<open>The decorative glyph U+2733, as the three bytes of its UTF-8 encoding.\<close>

definition sparkle :: string where
  "sparkle = [CHR 0xE2, CHR 0x9C, CHR 0xB3]"

text \<open>\<^verbatim>\<open>cleanTitle\<close> (claude_monitor.go).\<close>

definition cleanTitle :: "string \<Rightarrow> string" where
  "cleanTitle title =
     (let cleaned = TrimSpace (ReplaceAll title sparkle []);
          cleaned = TrimSpace (TrimPrefix cleaned ''*'')
      in cleaned)"

section \<open>Go paths\<close>

text \<open>
  Package \<^verbatim>\<open>path/filepath\<close> on Unix, where the separator is \<^verbatim>\<open>/\<close> and there is no
  volume name. \<^verbatim>\<open>Clean\<close> works on the elements between separators: it drops empty
  elements and \<^verbatim>\<open>.\<close>, lets \<^verbatim>\<open>..\<close> remove the element before it, drops a \<^verbatim>\<open>..\<close>
  at the root, keeps it at the start of a relative path, and returns \<^verbatim>\<open>.\<close> for an
  empty result.
\<close>

fun split_sep :: "string \<Rightarrow> string list" where
  "split_sep [] = [[]]"
| "split_sep (c # s) =
     (if c = CHR ''/'' then [] # split_sep s
      else (case split_sep s of e # es \<Rightarrow> (c # e) # es | [] \<Rightarrow> [[c]]))"

fun join_sep :: "string list \<Rightarrow> string" where
  "join_sep [] = []"
| "join_sep [e] = e"
| "join_sep (e # es) = e @ ''/'' @ join_sep es"

text \<open>The second argument is the output so far, last element first.\<close>

fun clean_elems :: "bool \<Rightarrow> string list \<Rightarrow> string list \<Rightarrow> string list" where
  "clean_elems rooted out [] = rev out"
| "clean_elems rooted out (e # es) =
     (if e = [] \<or> e = ''.'' then clean_elems rooted out es
      else if e = ''..'' then
        (case out of
           [] \<Rightarrow> if rooted then clean_elems rooted [] es else clean_elems rooted [e] es
         | t # ts \<Rightarrow> if t = ''..'' then clean_elems rooted (e # out) es
                    else clean_elems rooted ts es)
      else clean_elems rooted (e # out) es)"

definition Clean :: "string \<Rightarrow> string" where
  "Clean path =
     (if path = [] then ''.''
      else let rooted = (hd path = CHR ''/'');
               out = join_sep (clean_elems rooted [] (split_sep path))
           in if rooted then ''/'' @ out else if out = [] then ''.'' else out)"

text \<open>\<^verbatim>\<open>filepath.Base\<close>: the last element, after trailing separators are removed.\<close>

definition Base :: "string \<Rightarrow> string" where
  "Base path =
     (if path = [] then ''.''
      else let stripped = rev (dropWhile (\<lambda>c. c = CHR ''/'') (rev path));
               last_elem = rev (takeWhile (\<lambda>c. c \<noteq> CHR ''/'') (rev stripped))
           in if last_elem = [] then ''/'' else last_elem)"

text \<open>\<^verbatim>\<open>filepath.Dir\<close>: all but the last element, cleaned.\<close>

definition Dir :: "string \<Rightarrow> string" where
  "Dir path = Clean (rev (dropWhile (\<lambda>c. c \<noteq> CHR ''/'') (rev path)))"

text \<open>\<^verbatim>\<open>filepath.Join\<close>: the non-empty elements, joined and cleaned.\<close>

definition Join :: "string list \<Rightarrow> string" where
  "Join elems =
     (let es = filter (\<lambda>e. e \<noteq> []) elems
      in if es = [] then [] else Clean (join_sep es))"

section \<open>Worktree validity\<close>

text \<open>
  The process environment is a function from variable names to values; as with
  \<^verbatim>\<open>os.Getenv\<close>, an unset variable reads as the empty string.
\<close>

type_synonym environ = "string \<Rightarrow> string"

definition defaultWorkspaceDir :: string where
  "defaultWorkspaceDir = ''/workspace''"

text \<open>\<^verbatim>\<open>getWorkspaceDir\<close> (the Git service).\<close>

definition getWorkspaceDir :: "environ \<Rightarrow> string" where
  "getWorkspaceDir getenv =
     (let dir = getenv ''CATNIP_WORKSPACE_DIR''
      in if dir \<noteq> [] then dir else defaultWorkspaceDir)"

text \<open>
  \<^verbatim>\<open>isWorktreeDirectory\<close> (claude_monitor.go). The file system is the parameter
  \<open>stat_ok\<close>: whether \<^verbatim>\<open>os.Stat\<close> of a path returns no error. The function does not
  read the environment.
\<close>

definition isWorktreeDirectory :: "(string \<Rightarrow> bool) \<Rightarrow> string \<Rightarrow> bool" where
  "isWorktreeDirectory stat_ok dir =
     (if \<not> HasPrefix dir ''/workspace/'' then False
      else let gitDir = Join [dir, ''.git'']
           in if \<not> stat_ok gitDir then False else True)"

section \<open>Session transcript paths\<close>

text \<open>\<^verbatim>\<open>getWorktreePathFromSessionFile\<close> (claude_monitor.go).\<close>

definition getWorktreePathFromSessionFile :: "string \<Rightarrow> string" where
  "getWorktreePathFromSessionFile sessionFilePath =
     (let dir = Dir sessionFilePath;
          projectDirName = Base dir
      in if HasPrefix projectDirName ''-''
         then ReplaceAll (drop 1 projectDirName) ''-'' ''/''
         else [])"

text \<open>
  Modelled from the spec: the encoder of project-directory names belongs to the agent
  that writes the transcripts and is not part of the source. The spec gives it as:
  the name starts with \<^verbatim>\<open>-\<close> and encodes the absolute worktree path by replacing
  \<^verbatim>\<open>/\<close> with \<^verbatim>\<open>-\<close>; so \<^verbatim>\<open>/workspace/catnip/coal\<close> becomes \<^verbatim>\<open>-workspace-catnip-coal\<close>,
  the example in the comment of \<^verbatim>\<open>getWorktreePathFromSessionFile\<close>.
\<close>

definition encodeWorktreePath :: "string \<Rightarrow> string" where
  "encodeWorktreePath p = ReplaceAll p ''/'' ''-''"

definition sessionFilePathFor :: "string \<Rightarrow> string \<Rightarrow> string \<Rightarrow> string" where
  "sessionFilePathFor transcript_root p session_id =
     transcript_root @ ''/'' @ encodeWorktreePath p @ ''/'' @ session_id @ ''.jsonl''"

section \<open>Branch-name collisions\<close>

text \<open>The decimal digits of a non-negative integer, as \<^verbatim>\<open>%d\<close> prints them.\<close>

function itoa :: "nat \<Rightarrow> string" where
  "itoa n = (if n < 10 then [char_of (48 + n)] else itoa (n div 10) @ [char_of (48 + n mod 10)])"
  by pat_completeness auto
termination
  by (relation "measure id") auto

declare itoa.simps [simp del]

text \<open>
  The collision loop of \<^verbatim>\<open>checkAndRenameBranch\<close>, which \<^verbatim>\<open>TriggerBranchRename\<close>
  repeats for a custom name:
  \<^verbatim>\<open>
  finalBranch := newBranch
  counter := 1
  for branchExists(workDir, finalBranch, false) ||
      branchExists(workDir, "refs/heads/"+finalBranch, false) {
      finalBranch = fmt.Sprintf("%s-%d", newBranch, counter)
      counter++
      if counter > 100 { return }
  }
  \<close>
  The loop only reads the repository, so the existence test is a function
  \<open>branchExists\<close> of the name. The result is \<open>None\<close> when the loop leaves the function
  at the safety limit, and the final name otherwise. \<open>collisionLoop\<close> is the loop entered
  with the given \<open>finalBranch\<close> and \<open>counter\<close>.
\<close>

function collisionLoop :: "(string \<Rightarrow> bool) \<Rightarrow> string \<Rightarrow> string \<Rightarrow> nat \<Rightarrow> string option" where
  "collisionLoop branchExists newBranch finalBranch counter =
     (if branchExists finalBranch \<or> branchExists (''refs/heads/'' @ finalBranch)
      then (let finalBranch' = newBranch @ ''-'' @ itoa counter;
                counter' = counter + 1
            in if counter' > 100 then None
               else collisionLoop branchExists newBranch finalBranch' counter')
      else Some finalBranch)"
  by pat_completeness auto
termination
  by (relation "measure (\<lambda>(branchExists, newBranch, finalBranch, counter). 101 - counter)") auto

declare collisionLoop.simps [simp del]

definition resolveCollisions :: "(string \<Rightarrow> bool) \<Rightarrow> string \<Rightarrow> string option" where
  "resolveCollisions branchExists newBranch = collisionLoop branchExists newBranch newBranch 1"

text \<open>
  The names the loop can test: the suggested name itself, then the name with the suffix
  \<^verbatim>\<open>-k\<close>.
\<close>

definition candidate :: "string \<Rightarrow> nat \<Rightarrow> string" where
  "candidate newBranch k = (if k = 0 then newBranch else newBranch @ ''-'' @ itoa k)"

definition taken :: "(string \<Rightarrow> bool) \<Rightarrow> string \<Rightarrow> bool" where
  "taken branchExists name \<longleftrightarrow> branchExists name \<or> branchExists (''refs/heads/'' @ name)"

section \<open>The environment of the monitor\<close>

text \<open>
  Git, the session store, the worktree registry and the checkpoint clock are reached
  through interfaces whose implementations are outside the source
  (\<^verbatim>\<open>git.Operations\<close>, \<^verbatim>\<open>SessionService\<close>, \<^verbatim>\<open>git.SessionCheckpointManager\<close>), and
  so are the scratch-branch predicate \<^verbatim>\<open>git.IsCatnipBranch\<close> and the completion client.
  The environment is a parameter: a \<open>world\<close> holds the list of the effectful calls
  made so far and, for every operation, its answer as a function of that history.
  Nothing is assumed about the answers.
\<close>

datatype error =
    CommandFailed string
  | GitAddFailed error string
  | GitCommitFailed error string
  | GitRevParseFailed error
  | CurrentBranchFailed error
  | CheckoutFailed string error
  | RenameFailed error
  | NoCheckpointManager string
  | InvalidBranchName string
  | TooManySimilarBranches string
  | NoTitleAvailable

datatype call =
    ExecuteGit string "string list"
  | DeleteBranch string string bool
  | UpdateWorktreeBranchName string string
  | UpdateLastCommitTime string
  | UpdatePreviousTitleCommitHash string string
  | RefreshWorktreeStatus string

record WorktreeInfo =
  Branch :: string

text \<open>
  \<open>outcome\<close> gives the output and the error (if any) of an effectful call;
  the other fields are the read-only operations. \<open>CreateCompletion\<close> is the completion
  client, asked in a working directory about a title: an error, no response (\<open>None\<close>)
  or the text of the response.
\<close>

record world =
  calls :: "call list"
  outcome :: "call list \<Rightarrow> call \<Rightarrow> string \<times> error option"
  IsGitRepository :: "call list \<Rightarrow> string \<Rightarrow> bool"
  BranchExists :: "call list \<Rightarrow> string \<Rightarrow> string \<Rightarrow> bool \<Rightarrow> bool"
  ListBranches :: "call list \<Rightarrow> string \<Rightarrow> error + string list"
  ShowRef :: "call list \<Rightarrow> string \<Rightarrow> string \<Rightarrow> bool"
  GetCommitCount :: "call list \<Rightarrow> string \<Rightarrow> string \<Rightarrow> string \<Rightarrow> error + nat"
  ListWorktrees :: "call list \<Rightarrow> string \<Rightarrow> error + WorktreeInfo list"
  check_ref_format :: "string \<Rightarrow> bool"
  IsCatnipBranch :: "string \<Rightarrow> bool"
  CreateCompletion :: "call list \<Rightarrow> string \<Rightarrow> string \<Rightarrow> error + string option"

definition perform :: "world \<Rightarrow> call \<Rightarrow> world \<times> string \<times> error option" where
  "perform w c = (w\<lparr>calls := calls w @ [c]\<rparr>, outcome w (calls w) c)"

text \<open>\<^verbatim>\<open>runGitCommand\<close> and \<^verbatim>\<open>branchExists\<close> (the Git service).\<close>

definition runGitCommand :: "world \<Rightarrow> string \<Rightarrow> string list \<Rightarrow> world \<times> string \<times> error option" where
  "runGitCommand w workingDir args = perform w (ExecuteGit workingDir args)"

definition branchExists :: "world \<Rightarrow> string \<Rightarrow> string \<Rightarrow> bool \<Rightarrow> bool" where
  "branchExists w repoPath branch isRemote = BranchExists w (calls w) repoPath branch isRemote"

section \<open>Branch names\<close>

definition invalidPatterns :: "string list" where
  "invalidPatterns = [''..'', ''~'', ''^'', '':'', ''?'', ''*'', ''['', [CHR 0x5C], '' '']"

text \<open>
  \<^verbatim>\<open>isValidGitBranchName\<close> (claude_monitor.go). \<open>check_ref_format w ref\<close> holds when
  the external command \<^verbatim>\<open>git check-ref-format <ref>\<close> exits without error.
\<close>

definition isValidGitBranchName :: "world \<Rightarrow> string \<Rightarrow> bool" where
  "isValidGitBranchName w branchName =
     (if length branchName = 0 \<or> length branchName > 100 then False
      else if \<not> check_ref_format w (''refs/heads/'' @ branchName) then False
      else if list_ex (\<lambda>pattern. Contains branchName pattern) invalidPatterns then False
      else if HasPrefix branchName ''/'' \<or> HasSuffix branchName ''/'' \<or>
              HasPrefix branchName ''.'' \<or> HasSuffix branchName ''.'' then False
      else True)"

text \<open>
  A world for examples: the effectful calls answer as \<open>out\<close> says, the branches that
  exist are those of \<open>existing\<close>, \<^verbatim>\<open>main\<close> is the base branch, and the completion
  client suggests \<^verbatim>\<open>feature/login-flow\<close>.
\<close>

definition example_world ::
  "(call list \<Rightarrow> call \<Rightarrow> string \<times> error option) \<Rightarrow> (string \<Rightarrow> bool) \<Rightarrow> world" where
  "example_world out existing =
     \<lparr>calls = [], outcome = out,
      IsGitRepository = (\<lambda>h dir. True),
      BranchExists = (\<lambda>h dir name isRemote. existing name),
      ListBranches = (\<lambda>h dir. Inr []),
      ShowRef = (\<lambda>h dir ref. ref = ''main''),
      GetCommitCount = (\<lambda>h dir base tip. Inr 0),
      ListWorktrees = (\<lambda>h dir. Inr []),
      check_ref_format = (\<lambda>ref. True),
      IsCatnipBranch = (\<lambda>name. prefix ''catnip/'' name),
      CreateCompletion = (\<lambda>h dir title. Inr (Some ''feature/login-flow''))\<rparr>"

definition all_succeed :: "call list \<Rightarrow> call \<Rightarrow> string \<times> error option" where
  "all_succeed h c = ([], None)"

section \<open>Committing the work of a title\<close>

text \<open>
  \<^verbatim>\<open>GitAddCommitGetHash\<close> (the Git service). The result is \<open>Inl\<close> the error or \<open>Inr\<close>
  the hash; the hash is empty when nothing was committed.
\<close>

definition GitAddCommitGetHash :: "world \<Rightarrow> string \<Rightarrow> string \<Rightarrow> world \<times> (error + string)" where
  "GitAddCommitGetHash w workspaceDir message =
     (if \<not> IsGitRepository w (calls w) workspaceDir then (w, Inr [])
      else
        case runGitCommand w workspaceDir [''add'', ''.''] of
          (w1, output, Some err) \<Rightarrow> (w1, Inl (GitAddFailed err output))
        | (w1, output, None) \<Rightarrow>
        (case runGitCommand w1 workspaceDir [''diff'', ''--cached'', ''--quiet''] of
          (w2, output, None) \<Rightarrow> (w2, Inr [])
        | (w2, output, Some err) \<Rightarrow>
        (case runGitCommand w2 workspaceDir [''commit'', ''-m'', message, ''-n''] of
          (w3, output, Some err) \<Rightarrow> (w3, Inl (GitCommitFailed err output))
        | (w3, output, None) \<Rightarrow>
        (case runGitCommand w3 workspaceDir [''rev-parse'', ''HEAD''] of
          (w4, output, Some err) \<Rightarrow> (w4, Inl (GitRevParseFailed err))
        | (w4, output, None) \<Rightarrow> (w4, Inr (TrimSpace output))))))"

text \<open>
  The checkpoint manager of one worktree. \<open>gitService\<close> is whether the pointer of that
  name is non-nil. A timer is pending from \<^verbatim>\<open>time.AfterFunc\<close> until it fires or is
  stopped; \<open>checkpointTimer\<close> is \<open>None\<close> while the pointer is nil.
\<close>

datatype timer = Pending | Inactive

record WorktreeCheckpointManager =
  workDir :: string
  gitService :: bool
  currentTitle :: string
  checkpointTimer :: "timer option"
  renamingInProgress :: bool

text \<open>\<^verbatim>\<open>commitPreviousWork\<close> (claude_monitor.go). Errors of the three updates are logged only.\<close>

definition commitPreviousWork :: "WorktreeCheckpointManager \<Rightarrow> world \<Rightarrow> string \<Rightarrow> world" where
  "commitPreviousWork m w title =
     (if \<not> gitService m then w
      else
        case GitAddCommitGetHash w (workDir m) title of
          (w1, Inl err) \<Rightarrow> w1
        | (w1, Inr commitHash) \<Rightarrow>
            if commitHash \<noteq> [] then
              let (w2, r2) = perform w1 (UpdateLastCommitTime (workDir m));
                  (w3, r3) = perform w2 (UpdatePreviousTitleCommitHash (workDir m) commitHash);
                  (w4, r4) = perform w3 (RefreshWorktreeStatus (workDir m))
              in w4
            else w1)"

text \<open>\<^verbatim>\<open>WorktreeCheckpointManager.Stop\<close> (claude_monitor.go).\<close>

definition Stop :: "WorktreeCheckpointManager \<Rightarrow> world \<Rightarrow> WorktreeCheckpointManager \<times> world" where
  "Stop m w =
     (let m1 = (case checkpointTimer m of
                  None \<Rightarrow> m
                | Some t \<Rightarrow> m\<lparr>checkpointTimer := Some Inactive\<rparr>);
          w1 = (if currentTitle m1 \<noteq> [] then commitPreviousWork m1 w (currentTitle m1) else w)
      in (m1, w1))"

text \<open>
  Observations on the calls of a run: the calls added since an earlier world, the
  commits among them, and the updates of the session store and the registry.
\<close>

definition new_calls :: "world \<Rightarrow> world \<Rightarrow> call list" where
  "new_calls w w' = drop (length (calls w)) (calls w')"

fun is_commit :: "call \<Rightarrow> bool" where
  "is_commit (ExecuteGit dir args) = (args \<noteq> [] \<and> hd args = ''commit'')"
| "is_commit c = False"

fun is_store_update :: "call \<Rightarrow> bool" where
  "is_store_update (UpdatePreviousTitleCommitHash dir h) = True"
| "is_store_update (RefreshWorktreeStatus dir) = True"
| "is_store_update (UpdateWorktreeBranchName dir b) = True"
| "is_store_update c = False"

text \<open>
  The answers of git on which \<^verbatim>\<open>GitAddCommitGetHash\<close> branches, read off the world it
  starts in: whether \<^verbatim>\<open>git add .\<close> succeeds, whether \<^verbatim>\<open>git diff --cached --quiet\<close>
  then reports staged changes (it exits with an error status when there are some),
  whether the commit succeeds, and what \<^verbatim>\<open>git rev-parse HEAD\<close> then prints.
\<close>

definition add_call :: "string \<Rightarrow> call" where
  "add_call dir = ExecuteGit dir [''add'', ''.'']"

definition diff_call :: "string \<Rightarrow> call" where
  "diff_call dir = ExecuteGit dir [''diff'', ''--cached'', ''--quiet'']"

definition commit_call :: "string \<Rightarrow> string \<Rightarrow> call" where
  "commit_call dir message = ExecuteGit dir [''commit'', ''-m'', message, ''-n'']"

definition rev_parse_call :: "string \<Rightarrow> call" where
  "rev_parse_call dir = ExecuteGit dir [''rev-parse'', ''HEAD'']"

definition add_succeeds :: "world \<Rightarrow> string \<Rightarrow> bool" where
  "add_succeeds w dir \<longleftrightarrow> snd (outcome w (calls w) (add_call dir)) = None"

definition staged_changes :: "world \<Rightarrow> string \<Rightarrow> bool" where
  "staged_changes w dir \<longleftrightarrow>
     snd (outcome w (calls w @ [add_call dir]) (diff_call dir)) \<noteq> None"

definition commit_succeeds :: "world \<Rightarrow> string \<Rightarrow> string \<Rightarrow> bool" where
  "commit_succeeds w dir message \<longleftrightarrow>
     snd (outcome w (calls w @ [add_call dir, diff_call dir]) (commit_call dir message)) = None"

definition head_after_commit :: "world \<Rightarrow> string \<Rightarrow> string \<Rightarrow> string \<times> error option" where
  "head_after_commit w dir message =
     outcome w (calls w @ [add_call dir, diff_call dir, commit_call dir message])
       (rev_parse_call dir)"

section \<open>The monitor service\<close>

text \<open>
  A time is a number of nanoseconds, as in \<^verbatim>\<open>time.Time\<close> and \<^verbatim>\<open>time.Duration\<close>.
\<close>

definition Second :: int where
  "Second = 1000000000"

text \<open>
  \<^verbatim>\<open>titleEvent\<close>; its fields \<^verbatim>\<open>title\<close>, \<^verbatim>\<open>timestamp\<close> and \<^verbatim>\<open>source\<close> carry the
  prefix \<open>event_\<close> here, since the functions below have parameters of those names.
\<close>

record titleEvent =
  event_title :: string
  event_timestamp :: int
  event_source :: string

text \<open>
  The service. The managers it has created live in \<open>managers\<close>, in the order of their
  creation; a pointer to a manager is its position there, and \<open>checkpointManagers\<close> maps
  a worktree path to such a pointer. \<open>svc_gitService\<close> is whether the Git service
  pointer is non-nil.
\<close>

record ClaudeMonitorService =
  svc_gitService :: bool
  checkpointManagers :: "string \<rightharpoonup> nat"
  managers :: "WorktreeCheckpointManager list"
  recentTitles :: "string \<rightharpoonup> titleEvent"

definition NewClaudeMonitorService :: "bool \<Rightarrow> ClaudeMonitorService" where
  "NewClaudeMonitorService gitService' =
     \<lparr>svc_gitService = gitService', checkpointManagers = Map.empty, managers = [],
      recentTitles = Map.empty\<rparr>"

definition createCheckpointManager :: "ClaudeMonitorService \<Rightarrow> string \<Rightarrow> WorktreeCheckpointManager" where
  "createCheckpointManager s workDir' =
     \<lparr>workDir = workDir', gitService = svc_gitService s, currentTitle = [],
      checkpointTimer = None, renamingInProgress = False\<rparr>"

section \<open>Title events\<close>

text \<open>
  \<^verbatim>\<open>handleTitleChange\<close> reads the clock three times: for the eviction cutoff, in
  \<^verbatim>\<open>time.Since\<close>, and for the timestamp it records. The three readings of one call are
  its parameter.
\<close>

record clock_reads =
  now_cutoff :: int
  now_since :: int
  now_record :: int

text \<open>The loop that deletes the events older than the cutoff.\<close>

definition evictOld :: "int \<Rightarrow> (string \<rightharpoonup> titleEvent) \<Rightarrow> (string \<rightharpoonup> titleEvent)" where
  "evictOld cutoff recent =
     (\<lambda>k. case recent k of
            None \<Rightarrow> None
          | Some event \<Rightarrow> if event_timestamp event < cutoff then None else Some event)"

text \<open>
  The first critical section of \<^verbatim>\<open>handleTitleChange\<close>, under \<^verbatim>\<open>recentTitlesMutex\<close>:
  duplicate detection. The result says whether the function goes on (the event is
  forwarded) or returns.
\<close>

definition recordTitleEvent ::
  "ClaudeMonitorService \<Rightarrow> string \<Rightarrow> string \<Rightarrow> string \<Rightarrow> clock_reads \<Rightarrow>
     ClaudeMonitorService \<times> bool" where
  "recordTitleEvent s dir newTitle source clk =
     (let key = dir @ '':'' @ newTitle;
          cutoff = now_cutoff clk - 5 * Second;
          s1 = s\<lparr>recentTitles := evictOld cutoff (recentTitles s)\<rparr>
      in case recentTitles s1 key of
           None \<Rightarrow>
             (s1\<lparr>recentTitles := (recentTitles s1)(key \<mapsto>
                \<lparr>event_title = newTitle, event_timestamp = now_record clk,
                 event_source = source\<rparr>)\<rparr>, True)
         | Some recent \<Rightarrow>
             if source = ''log'' \<and> event_source recent = ''log'' then (s1, False)
             else if source = ''pty'' \<and> now_since clk - event_timestamp recent < 2 * Second
             then (s1, False)
             else
               (s1\<lparr>recentTitles := (recentTitles s1)(key \<mapsto>
                  \<lparr>event_title = newTitle, event_timestamp = now_record clk,
                   event_source = source\<rparr>)\<rparr>, True))"

text \<open>
  The second critical section, under \<^verbatim>\<open>managersMutex\<close>: the manager of the worktree
  is looked up, and created when there is none.
\<close>

definition obtainManager :: "ClaudeMonitorService \<Rightarrow> string \<Rightarrow> ClaudeMonitorService \<times> nat" where
  "obtainManager s dir =
     (case checkpointManagers s dir of
        Some manager \<Rightarrow> (s, manager)
      | None \<Rightarrow>
          let manager = length (managers s)
          in (s\<lparr>managers := managers s @ [createCheckpointManager s dir],
                checkpointManagers := (checkpointManagers s)(dir \<mapsto> manager)\<rparr>, manager))"

text \<open>
  \<^verbatim>\<open>handleTitleChange\<close> (claude_monitor.go). The result is the manager that receives the
  title (its \<^verbatim>\<open>HandleTitleChange\<close> is the last statement of the function), or \<open>None\<close>
  when the event is dropped as a duplicate.
\<close>

definition handleTitleChange ::
  "ClaudeMonitorService \<Rightarrow> string \<Rightarrow> string \<Rightarrow> string \<Rightarrow> clock_reads \<Rightarrow>
     ClaudeMonitorService \<times> nat option" where
  "handleTitleChange s dir newTitle source clk =
     (case recordTitleEvent s dir newTitle source clk of
        (s1, False) \<Rightarrow> (s1, None)
      | (s1, True) \<Rightarrow>
          (case obtainManager s1 dir of (s2, manager) \<Rightarrow> (s2, Some manager)))"

text \<open>A title event as the ingestor hands it over: path, title, source, clock readings.\<close>

type_synonym title_event = "string \<times> string \<times> string \<times> clock_reads"

fun handle_events :: "ClaudeMonitorService \<Rightarrow> title_event list \<Rightarrow> ClaudeMonitorService" where
  "handle_events s [] = s"
| "handle_events s ((dir, newTitle, source, clk) # events) =
     handle_events (fst (handleTitleChange s dir newTitle source clk)) events"

text \<open>
  Calls of \<^verbatim>\<open>handleTitleChange\<close> that run concurrently interleave their critical
  sections; each section is atomic, since it holds its mutex from beginning to end. An
  execution is therefore a sequence of steps, each the first section of some call or the
  second section of some call.
\<close>

datatype step =
    RecordStep string string string clock_reads
  | ManagerStep string

fun step_service :: "ClaudeMonitorService \<Rightarrow> step \<Rightarrow> ClaudeMonitorService" where
  "step_service s (RecordStep dir newTitle source clk) =
     fst (recordTitleEvent s dir newTitle source clk)"
| "step_service s (ManagerStep dir) = fst (obtainManager s dir)"

definition run_steps :: "ClaudeMonitorService \<Rightarrow> step list \<Rightarrow> ClaudeMonitorService" where
  "run_steps s steps = foldl step_service s steps"

definition clock_at :: "int \<Rightarrow> clock_reads" where
  "clock_at t = \<lparr>now_cutoff = t, now_since = t, now_record = t\<rparr>"

text \<open>
  The managers created so far belong to distinct worktrees, and the map holds exactly
  the pointers to them, each under the path of its manager.
\<close>

definition managers_consistent :: "ClaudeMonitorService \<Rightarrow> bool" where
  "managers_consistent s \<longleftrightarrow>
     distinct (map workDir (managers s)) \<and>
     (\<forall>p r. checkpointManagers s p = Some r \<longleftrightarrow>
        r < length (managers s) \<and> workDir (managers s ! r) = p)"

section \<open>Renaming a branch\<close>

text \<open>\<^verbatim>\<open>renameBranch\<close> (claude_monitor.go); the result is the error, if any.\<close>

definition renameBranch :: "world \<Rightarrow> string \<Rightarrow> string \<Rightarrow> string \<Rightarrow> world \<times> error option" where
  "renameBranch w dir oldBranchName newBranchName =
     (case perform w (ExecuteGit dir [''checkout'', ''-b'', newBranchName]) of
        (w1, output, Some err) \<Rightarrow> (w1, Some (CheckoutFailed newBranchName err))
      | (w1, output, None) \<Rightarrow>
          let (w2, r2) = perform w1 (DeleteBranch dir oldBranchName True);
              (w3, r3) = perform w2 (UpdateWorktreeBranchName dir newBranchName)
          in (w3, None))"

text \<open>\<^verbatim>\<open>strings.Index\<close>, and the first element of \<^verbatim>\<open>strings.Split(s, "\n")\<close>.\<close>

fun Index :: "string \<Rightarrow> string \<Rightarrow> nat option" where
  "Index [] sub = (if sub = [] then Some 0 else None)"
| "Index (c # s) sub = (if prefix sub (c # s) then Some 0 else map_option Suc (Index s sub))"

definition first_line :: "string \<Rightarrow> string" where
  "first_line s = takeWhile (\<lambda>c. c \<noteq> CHR 0x0A) s"

text \<open>
  The branch that \<^verbatim>\<open>checkAndRenameBranch\<close> takes as current, from the trimmed output
  of \<^verbatim>\<open>git rev-parse --symbolic-full-name HEAD\<close>: a 40-byte name without \<^verbatim>\<open>/\<close> is an
  object hash, and the name is then read from the first line of
  \<^verbatim>\<open>git status --porcelain=v1 -b\<close>.
\<close>

definition detachedHeadBranch :: "world \<Rightarrow> string \<Rightarrow> string \<Rightarrow> world \<times> string" where
  "detachedHeadBranch w dir currentBranch =
     (if length currentBranch = 40 \<and> \<not> Contains currentBranch ''/'' then
        (case perform w (ExecuteGit dir [''status'', ''--porcelain=v1'', ''-b'']) of
           (w1, statusOutput, Some statusErr) \<Rightarrow> (w1, currentBranch)
         | (w1, statusOutput, None) \<Rightarrow>
             let line0 = first_line (TrimSpace statusOutput)
             in if HasPrefix line0 ''## '' then
                  let branchInfo = TrimPrefix line0 ''## ''
                  in (case Index branchInfo ''...'' of
                        Some dotIndex \<Rightarrow> (w1, take dotIndex branchInfo)
                      | None \<Rightarrow>
                          (case Index branchInfo ''['' of
                             Some bracketIndex \<Rightarrow> (w1, TrimSpace (take bracketIndex branchInfo))
                           | None \<Rightarrow> (w1, branchInfo)))
                else (w1, currentBranch))
      else (w, currentBranch))"

text \<open>
  \<^verbatim>\<open>checkAndRenameBranch\<close> (claude_monitor.go), run to its end. The deferred function
  clears \<open>renamingInProgress\<close> on every return after the first.
\<close>

definition checkAndRenameBranch ::
  "WorktreeCheckpointManager \<Rightarrow> world \<Rightarrow> string \<Rightarrow> WorktreeCheckpointManager \<times> world" where
  "checkAndRenameBranch m w title' =
     (let cleanedTitle = cleanTitle title' in
      if cleanedTitle = [] then (m, w)
      else
        let m' = m\<lparr>renamingInProgress := False\<rparr> in
        case perform w (ExecuteGit (workDir m) [''rev-parse'', ''--symbolic-full-name'', ''HEAD'']) of
          (w1, output, Some err) \<Rightarrow> (m', w1)
        | (w1, output, None) \<Rightarrow>
            let (w2, currentBranch) = detachedHeadBranch w1 (workDir m) (TrimSpace output) in
            if \<not> IsCatnipBranch w2 currentBranch then (m', w2)
            else
              (case CreateCompletion w2 (calls w2) (workDir m) cleanedTitle of
                 Inl err \<Rightarrow> (m', w2)
               | Inr None \<Rightarrow> (m', w2)
               | Inr (Some response) \<Rightarrow>
                   if response = [] then (m', w2)
                   else
                     let newBranch = TrimSpace response in
                     if \<not> isValidGitBranchName w2 newBranch then (m', w2)
                     else
                       (case resolveCollisions
                               (\<lambda>name. branchExists w2 (workDir m) name False) newBranch of
                          None \<Rightarrow> (m', w2)
                        | Some finalBranch \<Rightarrow>
                            if branchExists w2 (workDir m) finalBranch False \<or>
                               branchExists w2 (workDir m) (''refs/heads/'' @ finalBranch) False
                            then (m', w2)
                            else (m', fst (renameBranch w2 (workDir m) currentBranch finalBranch)))))"

text \<open>
  \<^verbatim>\<open>TriggerBranchRename\<close> (claude_monitor.go). The result \<open>Inr None\<close> is a rename to the
  custom name; \<open>Inr (Some t)\<close> says that \<^verbatim>\<open>checkAndRenameBranch\<close> was started with the
  current title \<open>t\<close>.
\<close>

definition TriggerBranchRename ::
  "ClaudeMonitorService \<Rightarrow> world \<Rightarrow> string \<Rightarrow> string \<Rightarrow> world \<times> (error + string option)" where
  "TriggerBranchRename s w dir customBranchName =
     (case checkpointManagers s dir of
        None \<Rightarrow> (w, Inl (NoCheckpointManager dir))
      | Some manager \<Rightarrow>
        (case perform w (ExecuteGit dir [''rev-parse'', ''--symbolic-full-name'', ''HEAD'']) of
           (w1, output, Some err) \<Rightarrow> (w1, Inl (CurrentBranchFailed err))
         | (w1, output, None) \<Rightarrow>
             let currentBranch = TrimSpace output in
             if customBranchName \<noteq> [] then
               if \<not> isValidGitBranchName w1 customBranchName
               then (w1, Inl (InvalidBranchName customBranchName))
               else
                 (case resolveCollisions (\<lambda>name. branchExists w1 dir name False) customBranchName of
                    None \<Rightarrow> (w1, Inl (TooManySimilarBranches customBranchName))
                  | Some finalBranch \<Rightarrow>
                      (case renameBranch w1 dir currentBranch finalBranch of
                         (w2, Some err) \<Rightarrow> (w2, Inl (RenameFailed err))
                       | (w2, None) \<Rightarrow> (w2, Inr None)))
             else
               let currentTitle' = currentTitle (managers s ! manager) in
               if currentTitle' = [] then (w1, Inl NoTitleAvailable)
               else (w1, Inr (Some currentTitle'))))"

text \<open>
  Answers of git for a worktree with uncommitted changes: \<^verbatim>\<open>git diff --cached --quiet\<close>
  exits with status 1, \<^verbatim>\<open>git rev-parse HEAD\<close> prints the hash and a newline, every other
  call succeeds with empty output.
\<close>

definition dirty_outcome :: "string \<Rightarrow> string \<Rightarrow> call list \<Rightarrow> call \<Rightarrow> string \<times> error option" where
  "dirty_outcome dir hash h c =
     (if c = diff_call dir then ([], Some (CommandFailed ''exit status 1''))
      else if c = rev_parse_call dir then (hash @ [CHR 0x0A], None)
      else ([], None))"

definition example_manager :: "string \<Rightarrow> string \<Rightarrow> WorktreeCheckpointManager" where
  "example_manager dir title =
     \<lparr>workDir = dir, gitService = True, currentTitle = title,
      checkpointTimer = Some Pending, renamingInProgress = False\<rparr>"

section \<open>Startup cleanup of unused branches\<close>

record Repository =
  ID :: string
  Path :: string

text \<open>The loop over \<^verbatim>\<open>main\<close> and \<^verbatim>\<open>master\<close> that looks for the base branch.\<close>

fun findBaseRef :: "world \<Rightarrow> string \<Rightarrow> string list \<Rightarrow> string" where
  "findBaseRef w repoPath [] = []"
| "findBaseRef w repoPath (ref # refs) =
     (if ShowRef w (calls w) repoPath ref then ref else findBaseRef w repoPath refs)"

text \<open>
  The body of the loop over the branches of one repository in
  \<^verbatim>\<open>cleanupUnusedBranches\<close>; the result says whether the branch was deleted. The
  commit count is what \<^verbatim>\<open>git rev-list --count\<close> prints, a natural number.
\<close>

definition cleanupBranch :: "world \<Rightarrow> Repository \<Rightarrow> string \<Rightarrow> world \<times> bool" where
  "cleanupBranch w repo branch =
     (let branchName = TrimSpace branch;
          branchName = TrimPrefix branchName ''*'';
          branchName = TrimPrefix branchName ''+'';
          branchName = TrimSpace branchName;
          branchName = TrimPrefix branchName ''remotes/origin/''
      in if \<not> IsCatnipBranch w branchName then (w, False)
         else
           let baseRef = findBaseRef w (Path repo) [''main'', ''master'']
           in if baseRef = [] then (w, False)
              else if \<not> BranchExists w (calls w) (Path repo) branchName False then (w, False)
              else
                (case GetCommitCount w (calls w) (Path repo) baseRef branchName of
                   Inl err \<Rightarrow> (w, False)
                 | Inr commitCount \<Rightarrow>
                     if commitCount > 0 then (w, False)
                     else
                       let skipBranch =
                             (case ListWorktrees w (calls w) (Path repo) of
                                Inl err \<Rightarrow> False
                              | Inr worktrees \<Rightarrow>
                                  list_ex (\<lambda>wt. Branch wt = branchName) worktrees)
                       in if skipBranch then (w, False)
                          else
                            (case perform w (DeleteBranch (Path repo) branchName True) of
                               (w1, output, None) \<Rightarrow> (w1, True)
                             | (w1, output, Some err) \<Rightarrow> (w1, False))))"

fun cleanupBranches :: "world \<Rightarrow> Repository \<Rightarrow> string list \<Rightarrow> nat \<Rightarrow> world \<times> nat" where
  "cleanupBranches w repo [] deletedInRepo = (w, deletedInRepo)"
| "cleanupBranches w repo (branch # branches) deletedInRepo =
     (case cleanupBranch w repo branch of
        (w1, deleted) \<Rightarrow>
          cleanupBranches w1 repo branches (if deleted then deletedInRepo + 1 else deletedInRepo))"

fun cleanupRepos :: "world \<Rightarrow> Repository list \<Rightarrow> nat \<Rightarrow> world \<times> nat" where
  "cleanupRepos w [] totalDeleted = (w, totalDeleted)"
| "cleanupRepos w (repo # repos) totalDeleted =
     (case ListBranches w (calls w) (Path repo) of
        Inl err \<Rightarrow> cleanupRepos w repos totalDeleted
      | Inr branches \<Rightarrow>
          (case cleanupBranches w repo branches 0 of
             (w1, deletedInRepo) \<Rightarrow> cleanupRepos w1 repos (totalDeleted + deletedInRepo)))"

text \<open>
  \<^verbatim>\<open>cleanupUnusedBranches\<close> (the Git service), for the repositories of the service in
  the order in which the map yields them. The result is the world and \<^verbatim>\<open>totalDeleted\<close>.
\<close>

definition cleanupUnusedBranches :: "world \<Rightarrow> Repository list \<Rightarrow> world \<times> nat" where
  "cleanupUnusedBranches w repos = cleanupRepos w repos 0"

text \<open>
  The conditions of the claim for deleting branch \<open>b\<close> of the repository at \<open>path\<close>,
  read in the world as it is after the calls \<open>h\<close>: a scratch branch, a base branch among
  \<^verbatim>\<open>main\<close> and \<^verbatim>\<open>master\<close> over which the branch has no commits, the branch exists
  locally, and no worktree that is listed has it checked out.
\<close>

definition safe_to_delete :: "world \<Rightarrow> call list \<Rightarrow> string \<Rightarrow> string \<Rightarrow> bool" where
  "safe_to_delete w h path b \<longleftrightarrow>
     IsCatnipBranch w b \<and>
     list_ex (\<lambda>base. ShowRef w h path base \<and> GetCommitCount w h path base b = Inr 0)
       [''main'', ''master''] \<and>
     BranchExists w h path b False \<and>
     (case ListWorktrees w h path of
        Inl err \<Rightarrow> True
      | Inr worktrees \<Rightarrow> b \<notin> Branch ` set worktrees)"

text \<open>Calls made one after the other from the history \<open>h\<close>, each a safe deletion when made.\<close>

fun safe_deletions :: "world \<Rightarrow> call list \<Rightarrow> call list \<Rightarrow> bool" where
  "safe_deletions w h [] = True"
| "safe_deletions w h (c # cs) =
     ((case c of
         DeleteBranch path b force \<Rightarrow> force \<and> safe_to_delete w h path b
       | _ \<Rightarrow> False) \<and>
      safe_deletions w (h @ [c]) cs)"

text \<open>
  A bare repository for examples: the branch list has the scratch branch
  \<^verbatim>\<open>catnip/lively-otter\<close> and the checked-out \<^verbatim>\<open>main\<close>; the scratch branch exists
  locally, has no commits over \<^verbatim>\<open>main\<close>, and no worktree is listed.
\<close>

definition cleanup_world :: world where
  "cleanup_world =
     (example_world all_succeed (\<lambda>n. n = ''catnip/lively-otter''))
       \<lparr>ListBranches := (\<lambda>h dir. Inr [''  catnip/lively-otter'', ''* main''])\<rparr>"

definition cleanup_repos :: "Repository list" where
  "cleanup_repos = [\<lparr>ID = ''vanpelt/catnip'', Path = ''/workspace/catnip.git''\<rparr>]"

text \<open>
  A repository in which a suggested name and its variants \<^verbatim>\<open>-1\<close> to \<^verbatim>\<open>-99\<close> all exist,
  and nothing else; and answers of git for a worktree whose HEAD is the given branch.
\<close>

definition taken_names :: "string \<Rightarrow> string \<Rightarrow> bool" where
  "taken_names base n \<longleftrightarrow> n \<in> set (map (candidate base) [0..<100])"

definition head_outcome :: "string \<Rightarrow> call list \<Rightarrow> call \<Rightarrow> string \<times> error option" where
  "head_outcome branch h c =
     (if c = ExecuteGit ''/workspace/foo/alpha'' [''rev-parse'', ''--symbolic-full-name'', ''HEAD'']
      then (branch @ [CHR 0x0A], None) else ([], None))"

definition full_world :: world where
  "full_world = example_world (head_outcome ''catnip/lively-otter'')
     (taken_names ''feature/login-flow'')"

definition example_service :: "string \<Rightarrow> string \<Rightarrow> ClaudeMonitorService" where
  "example_service dir t =
     (NewClaudeMonitorService True)
       \<lparr>checkpointManagers := [dir \<mapsto> 0], managers := [example_manager dir t]\<rparr>"

section \<open>Facts about the string functions\<close>

lemma TrimLeftSpace_no_leading: "leading_space (TrimLeftSpace s) = None"
proof (induction s rule: TrimLeftSpace.induct)
  case (1 s)
  then show ?case
    by (cases "leading_space s") (simp_all add: TrimLeftSpace.simps [of s])
qed

lemma TrimRightSpace_no_trailing: "trailing_space (TrimRightSpace s) = None"
proof (induction s rule: TrimRightSpace.induct)
  case (1 s)
  then show ?case
    by (cases "trailing_space s") (simp_all add: TrimRightSpace.simps [of s])
qed

lemma TrimLeftSpace_id: "leading_space s = None \<Longrightarrow> TrimLeftSpace s = s"
  by (simp add: TrimLeftSpace.simps [of s])

lemma TrimRightSpace_id: "trailing_space s = None \<Longrightarrow> TrimRightSpace s = s"
  by (simp add: TrimRightSpace.simps [of s])

lemma TrimRightSpace_prefix: "prefix (TrimRightSpace s) s"
proof (induction s rule: TrimRightSpace.induct)
  case (1 s)
  show ?case
  proof (cases "trailing_space s")
    case None
    then show ?thesis by (simp add: TrimRightSpace.simps [of s])
  next
    case (Some n)
    with 1 have "prefix (TrimRightSpace (take (length s - n) s)) (take (length s - n) s)"
      by simp
    moreover have "prefix (take (length s - n) s) s"
      by (rule take_is_prefix)
    ultimately have "prefix (TrimRightSpace (take (length s - n) s)) s"
      by (rule prefix_order.trans)
    with Some show ?thesis by (simp add: TrimRightSpace.simps [of s])
  qed
qed

lemma TrimLeftSpace_suffix: "suffix (TrimLeftSpace s) s"
proof (induction s rule: TrimLeftSpace.induct)
  case (1 s)
  show ?case
  proof (cases "leading_space s")
    case None
    then show ?thesis by (simp add: TrimLeftSpace.simps [of s])
  next
    case (Some n)
    with 1 have "suffix (TrimLeftSpace (drop n s)) (drop n s)"
      by simp
    moreover have "suffix (drop n s) s"
      by (rule suffix_drop)
    ultimately have "suffix (TrimLeftSpace (drop n s)) s"
      by (rule suffix_order.trans)
    with Some show ?thesis by (simp add: TrimLeftSpace.simps [of s])
  qed
qed

lemma leading_space_None_iff:
  "leading_space s = None \<longleftrightarrow> (\<forall>e \<in> set space_encodings. \<not> prefix e s)"
  by (auto simp: leading_space_def find_None_iff)

lemma leading_space_prefix_mono:
  assumes "leading_space s = None" and "prefix u s"
  shows "leading_space u = None"
  using assms unfolding leading_space_None_iff
  by (meson prefix_order.trans)

lemma TrimSpace_trimmed:
  "leading_space (TrimSpace s) = None \<and> trailing_space (TrimSpace s) = None"
  unfolding TrimSpace_def
  using leading_space_prefix_mono [OF TrimLeftSpace_no_leading TrimRightSpace_prefix]
    TrimRightSpace_no_trailing by blast

lemma TrimSpace_id:
  "leading_space s = None \<Longrightarrow> trailing_space s = None \<Longrightarrow> TrimSpace s = s"
  by (simp add: TrimSpace_def TrimLeftSpace_id TrimRightSpace_id)

lemma TrimSpace_idem: "TrimSpace (TrimSpace s) = TrimSpace s"
  using TrimSpace_trimmed [of s] by (simp add: TrimSpace_id)

lemma length_TrimSpace: "length (TrimSpace s) \<le> length s"
proof -
  have "length (TrimRightSpace (TrimLeftSpace s)) \<le> length (TrimLeftSpace s)"
    using TrimRightSpace_prefix by (rule prefix_length_le)
  also have "\<dots> \<le> length s"
    using TrimLeftSpace_suffix by (rule suffix_length_le)
  finally show ?thesis by (simp add: TrimSpace_def)
qed

lemma length_TrimPrefix: "length (TrimPrefix s p) \<le> length s"
  by (simp add: TrimPrefix_def)

lemma ReplaceAll_absent:
  "\<not> sublist old s \<Longrightarrow> ReplaceAll s old new = s"
proof (induction s old new rule: ReplaceAll.induct)
  case (3 c s b bs new)
  from 3(3) have np: "\<not> prefix (b # bs) (c # s)" and ns: "\<not> sublist (b # bs) s"
    by (auto simp: sublist_Cons_right)
  with 3(2) show ?case by auto
qed simp_all

lemma length_ReplaceAll_delete: "length (ReplaceAll s old []) \<le> length s"
proof (induction s old "[] :: string" rule: ReplaceAll.induct)
  case (3 c s b bs)
  show ?case
  proof (cases "prefix (b # bs) (c # s)")
    case True
    with 3(1) have "length (ReplaceAll (drop (length bs) s) (b # bs) []) \<le> length (drop (length bs) s)"
      by simp
    with True show ?thesis by simp
  next
    case False
    with 3(2) show ?thesis by auto
  qed
qed simp_all

lemma length_ReplaceAll_delete_less:
  "old \<noteq> [] \<Longrightarrow> sublist old s \<Longrightarrow> length (ReplaceAll s old []) < length s"
proof (induction s old "[] :: string" rule: ReplaceAll.induct)
  case (3 c s b bs)
  show ?case
  proof (cases "prefix (b # bs) (c # s)")
    case True
    have "length (ReplaceAll (drop (length bs) s) (b # bs) []) \<le> length (drop (length bs) s)"
      by (rule length_ReplaceAll_delete)
    with True show ?thesis by simp
  next
    case False
    with 3(4) have "sublist (b # bs) s"
      by (auto simp: sublist_Cons_right)
    with 3(2) False show ?thesis by auto
  qed
qed simp_all

lemma cleanTitle_trimmed:
  "leading_space (cleanTitle t) = None \<and> trailing_space (cleanTitle t) = None"
  by (simp add: cleanTitle_def Let_def TrimSpace_trimmed)

lemma length_cleanTitle: "length (cleanTitle t) \<le> length (ReplaceAll t sparkle [])"
  unfolding cleanTitle_def Let_def
  by (meson length_TrimSpace length_TrimPrefix order_trans)

lemma length_cleanTitle_less:
  assumes tr: "leading_space t = None" "trailing_space t = None"
    and "HasPrefix t ''*'' \<or> Contains t sparkle"
  shows "length (cleanTitle t) < length t"
proof (cases "Contains t sparkle")
  case True
  then have "length (ReplaceAll t sparkle []) < length t"
    by (simp add: Contains_def sparkle_def length_ReplaceAll_delete_less)
  with length_cleanTitle [of t] show ?thesis by simp
next
  case False
  with assms have p: "HasPrefix t ''*''" by simp
  from False have r: "ReplaceAll t sparkle [] = t"
    by (simp add: Contains_def ReplaceAll_absent)
  from p have "t \<noteq> []"
    by (auto simp: HasPrefix_def)
  with p have "length (TrimPrefix t ''*'') < length t"
    by (simp add: TrimPrefix_def)
  moreover have "cleanTitle t = TrimSpace (TrimPrefix t ''*'')"
    by (simp add: cleanTitle_def Let_def r TrimSpace_id tr)
  ultimately show ?thesis
    using length_TrimSpace [of "TrimPrefix t ''*''"] by simp
qed

lemma cleanTitle_fixed:
  assumes tr: "leading_space t = None" "trailing_space t = None"
    and "\<not> HasPrefix t ''*''" "\<not> Contains t sparkle"
  shows "cleanTitle t = t"
  using assms
  by (simp add: cleanTitle_def Let_def Contains_def ReplaceAll_absent TrimSpace_id TrimPrefix_def)

section \<open>Claims about title normalization\<close>

text \<open>
  C4 (as amended). Normalization is not idempotent on every title: \<^verbatim>\<open>cleanTitle\<close> strips
  one leading \<^verbatim>\<open>*\<close> only, and removing occurrences of the glyph can bring the bytes of
  another one together. Cleaning a cleaned title changes nothing exactly when the cleaned
  title neither starts with \<^verbatim>\<open>*\<close> nor contains the glyph.
\<close>

theorem cleanTitle_idempotent_iff:
  "cleanTitle (cleanTitle t) = cleanTitle t \<longleftrightarrow>
     \<not> HasPrefix (cleanTitle t) ''*'' \<and> \<not> Contains (cleanTitle t) sparkle"
proof
  assume eq: "cleanTitle (cleanTitle t) = cleanTitle t"
  show "\<not> HasPrefix (cleanTitle t) ''*'' \<and> \<not> Contains (cleanTitle t) sparkle"
  proof (rule ccontr)
    assume "\<not> ?thesis"
    then have "length (cleanTitle (cleanTitle t)) < length (cleanTitle t)"
      using cleanTitle_trimmed [of t] by (intro length_cleanTitle_less) auto
    with eq show False by simp
  qed
next
  assume "\<not> HasPrefix (cleanTitle t) ''*'' \<and> \<not> Contains (cleanTitle t) sparkle"
  then show "cleanTitle (cleanTitle t) = cleanTitle t"
    using cleanTitle_trimmed [of t] by (intro cleanTitle_fixed) auto
qed

text \<open>The theorem at the title \<^verbatim>\<open>" * Add login flow "\<close>.\<close>

theorem cleanTitle_idempotent_iff_witness:
  "\<not> HasPrefix (cleanTitle '' * Add login flow '') ''*'' \<and>
   \<not> Contains (cleanTitle '' * Add login flow '') sparkle \<and>
   cleanTitle (cleanTitle '' * Add login flow '') = cleanTitle '' * Add login flow ''"
proof -
  have v: "cleanTitle '' * Add login flow '' = ''Add login flow''"
    by code_simp
  have a: "\<not> HasPrefix ''Add login flow'' ''*'' \<and> \<not> Contains ''Add login flow'' sparkle"
    by code_simp
  show ?thesis
    using cleanTitle_idempotent_iff [of "'' * Add login flow ''"] a unfolding v by blast
qed

text \<open>
  C4 as stated fails: \<^verbatim>\<open>"**a"\<close> is cleaned to \<^verbatim>\<open>"*a"\<close>, and that to \<^verbatim>\<open>"a"\<close>.
\<close>

theorem cleanTitle_idempotent_counterexample:
  "cleanTitle (cleanTitle ''**a'') \<noteq> cleanTitle ''**a''"
  by code_simp

section \<open>Claims about branch-name validation\<close>

text \<open>
  C9. A suggested branch name is accepted exactly when its length is between 1 and 100,
  \<^verbatim>\<open>git check-ref-format refs/heads/<name>\<close> accepts it, it contains none of
  \<^verbatim>\<open>..\<close>, \<^verbatim>\<open>~\<close>, \<^verbatim>\<open>^\<close>, \<^verbatim>\<open>:\<close>, \<^verbatim>\<open>?\<close>, \<^verbatim>\<open>*\<close>, \<^verbatim>\<open>[\<close>, a backslash or a space, and it
  neither starts nor ends with \<^verbatim>\<open>/\<close> or \<^verbatim>\<open>.\<close>; every other name is rejected.
\<close>

theorem isValidGitBranchName_iff:
  "isValidGitBranchName w n \<longleftrightarrow>
     1 \<le> length n \<and> length n \<le> 100 \<and>
     check_ref_format w (''refs/heads/'' @ n) \<and>
     \<not> Contains n ''..'' \<and> \<not> Contains n ''~'' \<and> \<not> Contains n ''^'' \<and>
     \<not> Contains n '':'' \<and> \<not> Contains n ''?'' \<and> \<not> Contains n ''*'' \<and>
     \<not> Contains n ''['' \<and> \<not> Contains n [CHR 0x5C] \<and> \<not> Contains n '' '' \<and>
     \<not> HasPrefix n ''/'' \<and> \<not> HasSuffix n ''/'' \<and>
     \<not> HasPrefix n ''.'' \<and> \<not> HasSuffix n ''.''"
  unfolding isValidGitBranchName_def invalidPatterns_def
  by (auto simp: list_ex_iff Suc_le_eq)

text \<open>
  The theorem at \<^verbatim>\<open>feature/login-flow\<close> (accepted), at a name with a space and at the
  empty name (both rejected whatever \<^verbatim>\<open>git check-ref-format\<close> says).
\<close>

theorem isValidGitBranchName_iff_witness:
  "isValidGitBranchName (example_world all_succeed (\<lambda>n. False)) ''feature/login-flow'' \<and>
   \<not> isValidGitBranchName (example_world all_succeed (\<lambda>n. False)) ''feature/login flow'' \<and>
   \<not> isValidGitBranchName (example_world all_succeed (\<lambda>n. False)) []"
proof -
  have a: "\<not> Contains ''feature/login-flow'' ''..''" "\<not> Contains ''feature/login-flow'' ''~''"
    "\<not> Contains ''feature/login-flow'' ''^''" "\<not> Contains ''feature/login-flow'' '':''"
    "\<not> Contains ''feature/login-flow'' ''?''" "\<not> Contains ''feature/login-flow'' ''*''"
    "\<not> Contains ''feature/login-flow'' ''[''" "\<not> Contains ''feature/login-flow'' [CHR 0x5C]"
    "\<not> Contains ''feature/login-flow'' '' ''"
    "\<not> HasPrefix ''feature/login-flow'' ''/''" "\<not> HasSuffix ''feature/login-flow'' ''/''"
    "\<not> HasPrefix ''feature/login-flow'' ''.''" "\<not> HasSuffix ''feature/login-flow'' ''.''"
    by code_simp+
  have b: "Contains ''feature/login flow'' '' ''"
    by code_simp
  show ?thesis
    using isValidGitBranchName_iff [of "example_world all_succeed (\<lambda>n. False)" "''feature/login-flow''"]
      isValidGitBranchName_iff [of "example_world all_succeed (\<lambda>n. False)" "''feature/login flow''"]
      isValidGitBranchName_iff [of "example_world all_succeed (\<lambda>n. False)" "[]"] a b
    by (simp add: example_world_def)
qed

section \<open>Claims about session transcript paths\<close>

text \<open>
  C8, at the example of the source's own comment. The project directory of
  \<^verbatim>\<open>/workspace/catnip/coal\<close> is \<^verbatim>\<open>-workspace-catnip-coal\<close>; decoding the session file
  below it yields \<^verbatim>\<open>workspace/catnip/coal\<close>, without the leading separator, and not the
  worktree path. Were the directory name written with one more \<^verbatim>\<open>-\<close> in front of the
  replaced path, the separator would come back, but a path with a \<^verbatim>\<open>-\<close> of its own would
  not: \<^verbatim>\<open>/workspace/my-repo\<close> is decoded as \<^verbatim>\<open>/workspace/my/repo\<close>.
\<close>

theorem getWorktreePathFromSessionFile_drops_root:
  "sessionFilePathFor ''/home/catnip/.claude/projects'' ''/workspace/catnip/coal'' ''session-uuid''
     = ''/home/catnip/.claude/projects/-workspace-catnip-coal/session-uuid.jsonl'' \<and>
   getWorktreePathFromSessionFile
     ''/home/catnip/.claude/projects/-workspace-catnip-coal/session-uuid.jsonl''
     = ''workspace/catnip/coal'' \<and>
   getWorktreePathFromSessionFile
     (''/home/catnip/.claude/projects/'' @ ''-'' @ encodeWorktreePath ''/workspace/my-repo''
        @ ''/session-uuid.jsonl'')
     = ''/workspace/my/repo''"
  by code_simp

text \<open>
  The same holds of every absolute path: the decoder removes the first byte of the
  directory name and replaces bytes one for one, so its result is one byte shorter than
  the path that was encoded.
\<close>

lemma length_ReplaceAll_byte: "length (ReplaceAll s [a] [b]) = length s"
  by (induction s "[a]" "[b]" rule: ReplaceAll.induct) auto

lemma decode_encode_shorter:
  "length (ReplaceAll (drop 1 (encodeWorktreePath (CHR ''/'' # q))) ''-'' ''/'') = length q"
  by (simp add: encodeWorktreePath_def length_ReplaceAll_byte)

lemma getWorktreePathFromSessionFile_never_absolute:
  assumes "Base (Dir f) = encodeWorktreePath (CHR ''/'' # q)"
  shows "getWorktreePathFromSessionFile f \<noteq> CHR ''/'' # q"
proof -
  have "HasPrefix (encodeWorktreePath (CHR ''/'' # q)) ''-''"
    by (simp add: encodeWorktreePath_def HasPrefix_def)
  with assms have "getWorktreePathFromSessionFile f =
      ReplaceAll (drop 1 (encodeWorktreePath (CHR ''/'' # q))) ''-'' ''/''"
    by (simp add: getWorktreePathFromSessionFile_def Let_def)
  then have "length (getWorktreePathFromSessionFile f) = length q"
    by (simp only: decode_encode_shorter)
  then show ?thesis by auto
qed

section \<open>Claims about the worktree validity filter\<close>

text \<open>
  C6, with \<^verbatim>\<open>CATNIP_WORKSPACE_DIR=/data\<close>. The workspace root is then \<^verbatim>\<open>/data\<close>, but
  \<^verbatim>\<open>isWorktreeDirectory\<close> rejects the worktree \<^verbatim>\<open>/data/proj\<close> although its
  \<^verbatim>\<open>.git\<close> entry exists, and accepts \<^verbatim>\<open>/workspace/proj\<close>, which is outside the
  configured root: the prefix it tests is the literal \<^verbatim>\<open>/workspace/\<close>.
\<close>

theorem isWorktreeDirectory_ignores_override:
  "getWorkspaceDir (\<lambda>v. if v = ''CATNIP_WORKSPACE_DIR'' then ''/data'' else '''') = ''/data'' \<and>
   Join [''/data/proj'', ''.git''] = ''/data/proj/.git'' \<and>
   \<not> isWorktreeDirectory (\<lambda>p. p = ''/data/proj/.git'') ''/data/proj'' \<and>
   isWorktreeDirectory (\<lambda>p. p = ''/workspace/proj/.git'') ''/workspace/proj''"
  by code_simp

section \<open>Facts about committing\<close>

lemma GitAddCommitGetHash_eq:
  "GitAddCommitGetHash w d msg =
     (if \<not> IsGitRepository w (calls w) d then (w, Inr [])
      else case outcome w (calls w) (add_call d) of
        (o1, Some e1) \<Rightarrow> (w\<lparr>calls := calls w @ [add_call d]\<rparr>, Inl (GitAddFailed e1 o1))
      | (o1, None) \<Rightarrow>
      (case outcome w (calls w @ [add_call d]) (diff_call d) of
        (o2, None) \<Rightarrow> (w\<lparr>calls := calls w @ [add_call d, diff_call d]\<rparr>, Inr [])
      | (o2, Some e2) \<Rightarrow>
      (case outcome w (calls w @ [add_call d, diff_call d]) (commit_call d msg) of
        (o3, Some e3) \<Rightarrow>
          (w\<lparr>calls := calls w @ [add_call d, diff_call d, commit_call d msg]\<rparr>,
           Inl (GitCommitFailed e3 o3))
      | (o3, None) \<Rightarrow>
      (case outcome w (calls w @ [add_call d, diff_call d, commit_call d msg]) (rev_parse_call d) of
        (o4, Some e4) \<Rightarrow>
          (w\<lparr>calls := calls w @ [add_call d, diff_call d, commit_call d msg, rev_parse_call d]\<rparr>,
           Inl (GitRevParseFailed e4))
      | (o4, None) \<Rightarrow>
          (w\<lparr>calls := calls w @ [add_call d, diff_call d, commit_call d msg, rev_parse_call d]\<rparr>,
           Inr (TrimSpace o4))))))"
  by (simp add: GitAddCommitGetHash_def runGitCommand_def perform_def add_call_def diff_call_def
      commit_call_def rev_parse_call_def split: prod.splits option.splits)

lemma new_calls_append [simp]: "new_calls w (w\<lparr>calls := calls w @ cs\<rparr>) = cs"
  by (simp add: new_calls_def)

lemma new_calls_same [simp]: "new_calls w w = []"
  by (simp add: new_calls_def)

lemma is_commit_calls [simp]:
  "\<not> is_commit (add_call d)" "\<not> is_commit (diff_call d)" "is_commit (commit_call d msg)"
  "\<not> is_commit (rev_parse_call d)"
  by (simp_all add: add_call_def diff_call_def commit_call_def rev_parse_call_def)

lemma is_store_update_calls [simp]:
  "\<not> is_store_update (add_call d)" "\<not> is_store_update (diff_call d)"
  "\<not> is_store_update (commit_call d msg)" "\<not> is_store_update (rev_parse_call d)"
  by (simp_all add: add_call_def diff_call_def commit_call_def rev_parse_call_def)

lemma commitPreviousWork_eq:
  "commitPreviousWork m w title =
     (if \<not> gitService m then w
      else case GitAddCommitGetHash w (workDir m) title of
        (w1, Inl err) \<Rightarrow> w1
      | (w1, Inr commitHash) \<Rightarrow>
          if commitHash \<noteq> [] then
            w1\<lparr>calls := calls w1 @ [UpdateLastCommitTime (workDir m),
              UpdatePreviousTitleCommitHash (workDir m) commitHash,
              RefreshWorktreeStatus (workDir m)]\<rparr>
          else w1)"
  by (simp add: commitPreviousWork_def perform_def Let_def split: prod.splits sum.splits)


lemma GitAddCommitGetHash_not_repo:
  "\<not> IsGitRepository w (calls w) d \<Longrightarrow> GitAddCommitGetHash w d msg = (w, Inr [])"
  by (simp add: GitAddCommitGetHash_eq)

lemma GitAddCommitGetHash_add_fails:
  assumes "IsGitRepository w (calls w) d" "\<not> add_succeeds w d"
  shows "\<exists>e out. GitAddCommitGetHash w d msg =
           (w\<lparr>calls := calls w @ [add_call d]\<rparr>, Inl (GitAddFailed e out))"
proof -
  obtain o1 e1 where "outcome w (calls w) (add_call d) = (o1, Some e1)"
    using assms(2) by (cases "outcome w (calls w) (add_call d)") (auto simp: add_succeeds_def)
  with assms(1) show ?thesis by (simp add: GitAddCommitGetHash_eq)
qed

lemma GitAddCommitGetHash_clean:
  assumes "IsGitRepository w (calls w) d" "add_succeeds w d" "\<not> staged_changes w d"
  shows "GitAddCommitGetHash w d msg =
           (w\<lparr>calls := calls w @ [add_call d, diff_call d]\<rparr>, Inr [])"
proof -
  obtain o1 where 1: "outcome w (calls w) (add_call d) = (o1, None)"
    using assms(2) by (cases "outcome w (calls w) (add_call d)") (auto simp: add_succeeds_def)
  obtain o2 where 2: "outcome w (calls w @ [add_call d]) (diff_call d) = (o2, None)"
    using assms(3) by (cases "outcome w (calls w @ [add_call d]) (diff_call d)")
      (auto simp: staged_changes_def)
  from assms(1) 1 2 show ?thesis by (simp add: GitAddCommitGetHash_eq)
qed

lemma GitAddCommitGetHash_commit_fails:
  assumes "IsGitRepository w (calls w) d" "add_succeeds w d" "staged_changes w d"
    "\<not> commit_succeeds w d msg"
  shows "\<exists>e out. GitAddCommitGetHash w d msg =
           (w\<lparr>calls := calls w @ [add_call d, diff_call d, commit_call d msg]\<rparr>,
            Inl (GitCommitFailed e out))"
proof -
  obtain o1 where 1: "outcome w (calls w) (add_call d) = (o1, None)"
    using assms(2) by (cases "outcome w (calls w) (add_call d)") (auto simp: add_succeeds_def)
  obtain o2 e2 where 2: "outcome w (calls w @ [add_call d]) (diff_call d) = (o2, Some e2)"
    using assms(3) by (cases "outcome w (calls w @ [add_call d]) (diff_call d)")
      (auto simp: staged_changes_def)
  obtain o3 e3 where 3:
    "outcome w (calls w @ [add_call d, diff_call d]) (commit_call d msg) = (o3, Some e3)"
    using assms(4)
    by (cases "outcome w (calls w @ [add_call d, diff_call d]) (commit_call d msg)")
      (auto simp: commit_succeeds_def)
  from assms(1) 1 2 3 show ?thesis by (simp add: GitAddCommitGetHash_eq)
qed

lemma GitAddCommitGetHash_committed:
  assumes "IsGitRepository w (calls w) d" "add_succeeds w d" "staged_changes w d"
    "commit_succeeds w d msg"
  shows "GitAddCommitGetHash w d msg =
           (w\<lparr>calls := calls w @ [add_call d, diff_call d, commit_call d msg, rev_parse_call d]\<rparr>,
            case head_after_commit w d msg of
              (out, Some e) \<Rightarrow> Inl (GitRevParseFailed e)
            | (out, None) \<Rightarrow> Inr (TrimSpace out))"
proof -
  obtain o1 where 1: "outcome w (calls w) (add_call d) = (o1, None)"
    using assms(2) by (cases "outcome w (calls w) (add_call d)") (auto simp: add_succeeds_def)
  obtain o2 e2 where 2: "outcome w (calls w @ [add_call d]) (diff_call d) = (o2, Some e2)"
    using assms(3) by (cases "outcome w (calls w @ [add_call d]) (diff_call d)")
      (auto simp: staged_changes_def)
  obtain o3 where 3:
    "outcome w (calls w @ [add_call d, diff_call d]) (commit_call d msg) = (o3, None)"
    using assms(4)
    by (cases "outcome w (calls w @ [add_call d, diff_call d]) (commit_call d msg)")
      (auto simp: commit_succeeds_def)
  obtain o4 e4 where 4: "head_after_commit w d msg = (o4, e4)"
    by (cases "head_after_commit w d msg")
  from 4 have r4: "outcome w (calls w @ [add_call d, diff_call d, commit_call d msg])
      (rev_parse_call d) = (o4, e4)"
    by (simp add: head_after_commit_def)
  from assms(1) 1 2 3 4 r4 show ?thesis
    by (cases e4) (simp_all add: GitAddCommitGetHash_eq)
qed

lemma commitPreviousWork_commits:
  "\<exists>cs. calls (commitPreviousWork m w title) = calls w @ cs \<and>
      filter is_commit cs =
        (if gitService m \<and> IsGitRepository w (calls w) (workDir m) \<and>
            add_succeeds w (workDir m) \<and> staged_changes w (workDir m)
         then [commit_call (workDir m) title] else [])"
proof -
  let ?d = "workDir m"
  consider (nil) "\<not> gitService m"
    | (norepo) "gitService m" "\<not> IsGitRepository w (calls w) ?d"
    | (addfail) "gitService m" "IsGitRepository w (calls w) ?d" "\<not> add_succeeds w ?d"
    | (clean) "gitService m" "IsGitRepository w (calls w) ?d" "add_succeeds w ?d"
        "\<not> staged_changes w ?d"
    | (commitfail) "gitService m" "IsGitRepository w (calls w) ?d" "add_succeeds w ?d"
        "staged_changes w ?d" "\<not> commit_succeeds w ?d title"
    | (committed) "gitService m" "IsGitRepository w (calls w) ?d" "add_succeeds w ?d"
        "staged_changes w ?d" "commit_succeeds w ?d title"
    by blast
  then show ?thesis
  proof cases
    case nil
    then show ?thesis by (simp add: commitPreviousWork_eq)
  next
    case norepo
    then show ?thesis
      by (simp add: commitPreviousWork_eq GitAddCommitGetHash_not_repo)
  next
    case addfail
    with GitAddCommitGetHash_add_fails [of w ?d title] obtain e out' where
      "GitAddCommitGetHash w ?d title = (w\<lparr>calls := calls w @ [add_call ?d]\<rparr>, Inl (GitAddFailed e out'))"
      by blast
    with addfail show ?thesis
      by (simp add: commitPreviousWork_eq)
  next
    case clean
    then show ?thesis
      by (simp add: commitPreviousWork_eq GitAddCommitGetHash_clean)
  next
    case commitfail
    with GitAddCommitGetHash_commit_fails [of w ?d title] obtain e out' where
      "GitAddCommitGetHash w ?d title =
         (w\<lparr>calls := calls w @ [add_call ?d, diff_call ?d, commit_call ?d title]\<rparr>,
          Inl (GitCommitFailed e out'))"
      by blast
    with commitfail show ?thesis
      by (simp add: commitPreviousWork_eq)
  next
    case committed
    obtain o4 e4 where h: "head_after_commit w ?d title = (o4, e4)"
      by (cases "head_after_commit w ?d title")
    from committed h show ?thesis
      by (cases e4) (simp_all add: commitPreviousWork_eq GitAddCommitGetHash_committed)
  qed
qed

section \<open>Claims about committing the previous work\<close>

text \<open>
  C7. For a manager with a Git service, \<^verbatim>\<open>commitPreviousWork\<close> runs \<^verbatim>\<open>git add .\<close> and
  then asks for staged changes. If the directory is not a repository, or nothing is
  staged, \<^verbatim>\<open>GitAddCommitGetHash\<close> returns the empty hash without error and no call
  reaches the session store or the registry. If changes are staged, it runs
  \<^verbatim>\<open>git commit -m <title> -n\<close> (hooks bypassed) and \<^verbatim>\<open>git rev-parse HEAD\<close>, returns
  the trimmed hash, and that hash is passed to \<^verbatim>\<open>UpdatePreviousTitleCommitHash\<close> before
  the worktree status is refreshed. If one of the git commands fails, an error is
  returned and neither store is touched.
\<close>

theorem commitPreviousWork_behaviour:
  "gitService m \<Longrightarrow>
   (\<not> IsGitRepository w (calls w) (workDir m) \<or>
      add_succeeds w (workDir m) \<and> \<not> staged_changes w (workDir m)
    \<longrightarrow> snd (GitAddCommitGetHash w (workDir m) title) = Inr [] \<and>
        new_calls w (commitPreviousWork m w title) =
          (if IsGitRepository w (calls w) (workDir m)
           then [add_call (workDir m), diff_call (workDir m)] else [])) \<and>
   (IsGitRepository w (calls w) (workDir m) \<and> add_succeeds w (workDir m) \<and>
      staged_changes w (workDir m) \<and> commit_succeeds w (workDir m) title \<and>
      head_after_commit w (workDir m) title = (out, None) \<and> TrimSpace out \<noteq> []
    \<longrightarrow> snd (GitAddCommitGetHash w (workDir m) title) = Inr (TrimSpace out) \<and>
        new_calls w (commitPreviousWork m w title) =
          [add_call (workDir m), diff_call (workDir m), commit_call (workDir m) title,
           rev_parse_call (workDir m), UpdateLastCommitTime (workDir m),
           UpdatePreviousTitleCommitHash (workDir m) (TrimSpace out),
           RefreshWorktreeStatus (workDir m)]) \<and>
   (IsGitRepository w (calls w) (workDir m) \<and>
      (\<not> add_succeeds w (workDir m) \<or>
       staged_changes w (workDir m) \<and>
         (\<not> commit_succeeds w (workDir m) title \<or>
          snd (head_after_commit w (workDir m) title) \<noteq> None))
    \<longrightarrow> isl (snd (GitAddCommitGetHash w (workDir m) title)) \<and>
        filter is_store_update (new_calls w (commitPreviousWork m w title)) = [])"
proof (intro conjI impI)
  let ?d = "workDir m"
  assume g: "gitService m"
  {
    assume a: "\<not> IsGitRepository w (calls w) ?d \<or> add_succeeds w ?d \<and> \<not> staged_changes w ?d"
    have G: "GitAddCommitGetHash w ?d title =
        (if IsGitRepository w (calls w) ?d
         then (w\<lparr>calls := calls w @ [add_call ?d, diff_call ?d]\<rparr>, Inr [])
         else (w, Inr []))"
      using a GitAddCommitGetHash_not_repo [of w ?d title] GitAddCommitGetHash_clean [of w ?d title]
      by auto
    show "snd (GitAddCommitGetHash w ?d title) = Inr []"
      by (simp add: G)
    show "new_calls w (commitPreviousWork m w title) =
          (if IsGitRepository w (calls w) ?d then [add_call ?d, diff_call ?d] else [])"
      using g by (simp add: commitPreviousWork_eq G)
  }
  {
    assume a: "IsGitRepository w (calls w) ?d \<and> add_succeeds w ?d \<and>
      staged_changes w ?d \<and> commit_succeeds w ?d title \<and>
      head_after_commit w ?d title = (out, None) \<and> TrimSpace out \<noteq> []"
    then have G: "GitAddCommitGetHash w ?d title =
         (w\<lparr>calls := calls w @ [add_call ?d, diff_call ?d, commit_call ?d title, rev_parse_call ?d]\<rparr>,
          Inr (TrimSpace out))"
      using GitAddCommitGetHash_committed [of w ?d title] by simp
    show "snd (GitAddCommitGetHash w ?d title) = Inr (TrimSpace out)"
      by (simp add: G)
    show "new_calls w (commitPreviousWork m w title) =
          [add_call ?d, diff_call ?d, commit_call ?d title,
           rev_parse_call ?d, UpdateLastCommitTime ?d,
           UpdatePreviousTitleCommitHash ?d (TrimSpace out),
           RefreshWorktreeStatus ?d]"
      using g a by (simp add: commitPreviousWork_eq G new_calls_def)
  }
  {
    assume a: "IsGitRepository w (calls w) ?d \<and>
      (\<not> add_succeeds w ?d \<or>
       staged_changes w ?d \<and>
         (\<not> commit_succeeds w ?d title \<or> snd (head_after_commit w ?d title) \<noteq> None))"
    have "\<exists>cs e. GitAddCommitGetHash w ?d title = (w\<lparr>calls := calls w @ cs\<rparr>, Inl e) \<and>
            filter is_store_update cs = []"
    proof (cases "add_succeeds w ?d")
      case False
      with a GitAddCommitGetHash_add_fails [of w ?d title] obtain e out' where
        "GitAddCommitGetHash w ?d title = (w\<lparr>calls := calls w @ [add_call ?d]\<rparr>, Inl (GitAddFailed e out'))"
        by blast
      then show ?thesis
        by (intro exI [of _ "[add_call ?d]"] exI [of _ "GitAddFailed e out'"]) simp
    next
      case True
      with a have st: "staged_changes w ?d" by blast
      show ?thesis
      proof (cases "commit_succeeds w ?d title")
        case False
        with a True st GitAddCommitGetHash_commit_fails [of w ?d title] obtain e out' where
          "GitAddCommitGetHash w ?d title =
             (w\<lparr>calls := calls w @ [add_call ?d, diff_call ?d, commit_call ?d title]\<rparr>,
              Inl (GitCommitFailed e out'))"
          by blast
        then show ?thesis
          by (intro exI [of _ "[add_call ?d, diff_call ?d, commit_call ?d title]"]
              exI [of _ "GitCommitFailed e out'"]) simp
      next
        case c: True
        with a True have "snd (head_after_commit w ?d title) \<noteq> None" by blast
        then obtain o4 e4 where "head_after_commit w ?d title = (o4, Some e4)"
          by (cases "head_after_commit w ?d title") auto
        with a True st c GitAddCommitGetHash_committed [of w ?d title] have
          "GitAddCommitGetHash w ?d title =
             (w\<lparr>calls := calls w @ [add_call ?d, diff_call ?d, commit_call ?d title, rev_parse_call ?d]\<rparr>,
              Inl (GitRevParseFailed e4))"
          by simp
        then show ?thesis
          by (intro exI [of _ "[add_call ?d, diff_call ?d, commit_call ?d title, rev_parse_call ?d]"]
              exI [of _ "GitRevParseFailed e4"]) simp
      qed
    qed
    then obtain cs e where G: "GitAddCommitGetHash w ?d title = (w\<lparr>calls := calls w @ cs\<rparr>, Inl e)"
      and cs: "filter is_store_update cs = []"
      by blast
    show "isl (snd (GitAddCommitGetHash w ?d title))"
      by (simp add: G)
    show "filter is_store_update (new_calls w (commitPreviousWork m w title)) = []"
      using g cs by (simp add: commitPreviousWork_eq G)
  }
qed

text \<open>
  The theorem at the title change of the spec's third scenario: there are staged changes
  and HEAD is \<^verbatim>\<open>3f2a\<close> after the commit.
\<close>

theorem commitPreviousWork_behaviour_witness:
  "snd (GitAddCommitGetHash (example_world (dirty_outcome ''/workspace/foo/alpha'' ''3f2a'') (\<lambda>n. False))
      ''/workspace/foo/alpha'' ''Add login flow'') = Inr ''3f2a'' \<and>
   calls (commitPreviousWork (example_manager ''/workspace/foo/alpha'' ''Wire up session store'')
     (example_world (dirty_outcome ''/workspace/foo/alpha'' ''3f2a'') (\<lambda>n. False)) ''Add login flow'') =
     [ExecuteGit ''/workspace/foo/alpha'' [''add'', ''.''],
      ExecuteGit ''/workspace/foo/alpha'' [''diff'', ''--cached'', ''--quiet''],
      ExecuteGit ''/workspace/foo/alpha'' [''commit'', ''-m'', ''Add login flow'', ''-n''],
      ExecuteGit ''/workspace/foo/alpha'' [''rev-parse'', ''HEAD''],
      UpdateLastCommitTime ''/workspace/foo/alpha'',
      UpdatePreviousTitleCommitHash ''/workspace/foo/alpha'' ''3f2a'',
      RefreshWorktreeStatus ''/workspace/foo/alpha'']"
proof -
  have t: "TrimSpace (''3f2a'' @ [CHR 0x0A]) = ''3f2a''"
    by code_simp
  show ?thesis
    using commitPreviousWork_behaviour [of "example_manager ''/workspace/foo/alpha'' ''Wire up session store''"
      "example_world (dirty_outcome ''/workspace/foo/alpha'' ''3f2a'') (\<lambda>n. False)"
      "''Add login flow''" "''3f2a'' @ [CHR 0x0A]"] t
    by (simp add: example_manager_def example_world_def dirty_outcome_def add_succeeds_def
      staged_changes_def commit_succeeds_def head_after_commit_def
      new_calls_def add_call_def diff_call_def commit_call_def rev_parse_call_def)
qed

section \<open>Claims about stopping a checkpoint manager\<close>

text \<open>
  C2. After \<^verbatim>\<open>Stop\<close> the timer is not pending, the earlier calls are untouched, and
  among the calls that \<^verbatim>\<open>Stop\<close> adds there is exactly one commit, with the current title
  as its message, when a title is current and the tree is dirty (the directory is a
  repository in which \<^verbatim>\<open>git add .\<close> succeeds and leaves staged changes, and the manager
  has a Git service); in every other case \<^verbatim>\<open>Stop\<close> adds no commit.
\<close>

theorem Stop_commits_pending_work:
  "checkpointTimer (fst (Stop m w)) \<noteq> Some Pending \<and>
   take (length (calls w)) (calls (snd (Stop m w))) = calls w \<and>
   filter is_commit (new_calls w (snd (Stop m w))) =
     (if currentTitle m \<noteq> [] \<and> gitService m \<and> IsGitRepository w (calls w) (workDir m) \<and>
         add_succeeds w (workDir m) \<and> staged_changes w (workDir m)
      then [commit_call (workDir m) (currentTitle m)] else [])"
proof -
  define m1 where "m1 = (case checkpointTimer m of None \<Rightarrow> m
     | Some t \<Rightarrow> m\<lparr>checkpointTimer := Some Inactive\<rparr>)"
  have m1: "workDir m1 = workDir m" "gitService m1 = gitService m" "currentTitle m1 = currentTitle m"
    "checkpointTimer m1 \<noteq> Some Pending"
    by (simp_all add: m1_def split: option.splits)
  have S: "Stop m w = (m1, if currentTitle m \<noteq> [] then commitPreviousWork m1 w (currentTitle m) else w)"
    by (simp add: Stop_def Let_def m1_def [symmetric] m1)
  show ?thesis
  proof (cases "currentTitle m = []")
    case True
    with S m1 show ?thesis by (simp add: new_calls_def)
  next
    case False
    from commitPreviousWork_commits [of m1 w "currentTitle m"] obtain cs where
      "calls (commitPreviousWork m1 w (currentTitle m)) = calls w @ cs"
      "filter is_commit cs =
        (if gitService m \<and> IsGitRepository w (calls w) (workDir m) \<and>
            add_succeeds w (workDir m) \<and> staged_changes w (workDir m)
         then [commit_call (workDir m) (currentTitle m)] else [])"
      unfolding m1 by blast
    with S m1 False show ?thesis by (simp add: new_calls_def)
  qed
qed

text \<open>The theorem at the spec's scenario: title \<^verbatim>\<open>Draft docs\<close>, dirty tree, timer pending.\<close>

theorem Stop_commits_pending_work_witness:
  "checkpointTimer (fst (Stop (example_manager ''/workspace/foo/alpha'' ''Draft docs'')
       (example_world (dirty_outcome ''/workspace/foo/alpha'' ''3f2a'') (\<lambda>n. False)))) \<noteq> Some Pending \<and>
   filter is_commit (calls (snd (Stop (example_manager ''/workspace/foo/alpha'' ''Draft docs'')
       (example_world (dirty_outcome ''/workspace/foo/alpha'' ''3f2a'') (\<lambda>n. False))))) =
     [ExecuteGit ''/workspace/foo/alpha'' [''commit'', ''-m'', ''Draft docs'', ''-n'']]"
  using Stop_commits_pending_work [of "example_manager ''/workspace/foo/alpha'' ''Draft docs''"
      "example_world (dirty_outcome ''/workspace/foo/alpha'' ''3f2a'') (\<lambda>n. False)"]
  by (simp add: example_manager_def example_world_def dirty_outcome_def add_succeeds_def
      staged_changes_def new_calls_def add_call_def diff_call_def commit_call_def rev_parse_call_def)

section \<open>Facts about the collision loop\<close>

text \<open>
  The loop returns the first free name among the suggested name and its variants
  \<^verbatim>\<open>-1\<close> to \<^verbatim>\<open>-99\<close>, and gives up when all of these are taken. The variant \<^verbatim>\<open>-100\<close>
  is formatted in the last iteration, but the counter is then 101 and the function
  returns before the loop condition tests that name.
\<close>

lemma collisionLoop_unfold:
  "collisionLoop ex nb f c =
     (if taken ex f
      then (if 100 \<le> c then None else collisionLoop ex nb (nb @ ''-'' @ itoa c) (Suc c))
      else Some f)"
  by (subst collisionLoop.simps) (simp add: taken_def Let_def)

lemma collisionLoop_find:
  "k < 100 \<Longrightarrow> collisionLoop ex nb (candidate nb k) (Suc k) =
           find (\<lambda>n. \<not> taken ex n) (map (candidate nb) [k..<100])"
proof (induction "99 - k" arbitrary: k)
  case 0
  then have k: "k = 99" by simp
  have up: "[99..<100] = [99::nat]" by simp
  show ?case
    unfolding k collisionLoop_unfold [of ex nb "candidate nb 99"] up by simp
next
  case (Suc d)
  then have k: "Suc k < 100" by simp
  then have up: "[k..<100] = k # [Suc k..<100]"
    by (simp add: upt_conv_Cons)
  have IH: "collisionLoop ex nb (candidate nb (Suc k)) (Suc (Suc k)) =
           find (\<lambda>n. \<not> taken ex n) (map (candidate nb) [Suc k..<100])"
    using Suc(1) [of "Suc k"] Suc(2) k by simp
  have cand: "nb @ ''-'' @ itoa (Suc k) = candidate nb (Suc k)"
    by (simp add: candidate_def)
  show ?case
    unfolding collisionLoop_unfold [of ex nb "candidate nb k"] up cand IH using k by simp
qed

lemma resolveCollisions_find:
  "resolveCollisions ex nb = find (\<lambda>n. \<not> taken ex n) (map (candidate nb) [0..<100])"
  using collisionLoop_find [of 0 ex nb] by (simp add: resolveCollisions_def candidate_def)

lemma resolveCollisions_all_taken: "resolveCollisions (taken_names base) base = None"
  by (simp add: resolveCollisions_find find_None_iff taken_def taken_names_def)

lemma variant_100_free: "\<not> taken_names ''feature/login-flow'' ''feature/login-flow-100''"
    "\<not> taken_names ''feature/login-flow'' ''refs/heads/feature/login-flow-100''"
  by code_simp+

lemma example_title_clean: "cleanTitle ''Add login flow'' = ''Add login flow''"
  by code_simp

lemma example_head_trimmed: "TrimSpace (''catnip/lively-otter'' @ [CHR 0x0A]) = ''catnip/lively-otter''"
  by code_simp

lemma example_suggestion_trimmed: "TrimSpace ''feature/login-flow'' = ''feature/login-flow''"
  by code_simp

lemma example_suggestion_valid: "isValidGitBranchName (full_world\<lparr>calls := cs\<rparr>) ''feature/login-flow''"
proof -
  have a: "\<not> Contains ''feature/login-flow'' ''..''" "\<not> Contains ''feature/login-flow'' ''~''"
    "\<not> Contains ''feature/login-flow'' ''^''" "\<not> Contains ''feature/login-flow'' '':''"
    "\<not> Contains ''feature/login-flow'' ''?''" "\<not> Contains ''feature/login-flow'' ''*''"
    "\<not> Contains ''feature/login-flow'' ''[''" "\<not> Contains ''feature/login-flow'' [CHR 0x5C]"
    "\<not> Contains ''feature/login-flow'' '' ''"
    "\<not> HasPrefix ''feature/login-flow'' ''/''" "\<not> HasSuffix ''feature/login-flow'' ''/''"
    "\<not> HasPrefix ''feature/login-flow'' ''.''" "\<not> HasSuffix ''feature/login-flow'' ''.''"
    by code_simp+
  show ?thesis
    unfolding isValidGitBranchName_def invalidPatterns_def
    by (simp add: a full_world_def example_world_def)
qed

lemma example_branchExists:
  "(\<lambda>name. branchExists (full_world\<lparr>calls := cs\<rparr>) dir name False) = taken_names ''feature/login-flow''"
  by (simp add: branchExists_def full_world_def example_world_def)

section \<open>Claims about branch-name collisions\<close>

text \<open>
  C3, in a repository where \<^verbatim>\<open>feature/login-flow\<close> and its variants \<^verbatim>\<open>-1\<close> to \<^verbatim>\<open>-99\<close>
  exist and \<^verbatim>\<open>feature/login-flow-100\<close> is free (neither as a bare name nor under
  \<^verbatim>\<open>refs/heads/\<close>). The loop gives up; \<^verbatim>\<open>checkAndRenameBranch\<close>, with the suggestion
  \<^verbatim>\<open>feature/login-flow\<close> on the branch \<^verbatim>\<open>catnip/lively-otter\<close>, makes no call after
  reading HEAD, and \<^verbatim>\<open>TriggerBranchRename\<close> with that custom name returns the error
  of too many similar branches: in both, the branch is left as it is and the variant
  \<^verbatim>\<open>-100\<close> is not used.
\<close>

theorem collision_limit_stops_before_100:
  "\<not> taken (taken_names ''feature/login-flow'') ''feature/login-flow-100'' \<and>
   resolveCollisions (taken_names ''feature/login-flow'') ''feature/login-flow'' = None \<and>
   calls (snd (checkAndRenameBranch (example_manager ''/workspace/foo/alpha'' ''Add login flow'')
        full_world ''Add login flow'')) =
     [ExecuteGit ''/workspace/foo/alpha'' [''rev-parse'', ''--symbolic-full-name'', ''HEAD'']] \<and>
   snd (TriggerBranchRename (example_service ''/workspace/foo/alpha'' ''Add login flow'') full_world
        ''/workspace/foo/alpha'' ''feature/login-flow'') =
     Inl (TooManySimilarBranches ''feature/login-flow'') \<and>
   calls (fst (TriggerBranchRename (example_service ''/workspace/foo/alpha'' ''Add login flow'') full_world
        ''/workspace/foo/alpha'' ''feature/login-flow'')) =
     [ExecuteGit ''/workspace/foo/alpha'' [''rev-parse'', ''--symbolic-full-name'', ''HEAD'']]"
proof (intro conjI)
  let ?rp = "ExecuteGit ''/workspace/foo/alpha'' [''rev-parse'', ''--symbolic-full-name'', ''HEAD'']"
  have P: "perform full_world ?rp =
      (full_world\<lparr>calls := [?rp]\<rparr>, ''catnip/lively-otter'' @ [CHR 0x0A], None)"
    by (simp add: perform_def full_world_def example_world_def head_outcome_def)
  have D: "detachedHeadBranch (full_world\<lparr>calls := [?rp]\<rparr>) ''/workspace/foo/alpha''
      ''catnip/lively-otter'' = (full_world\<lparr>calls := [?rp]\<rparr>, ''catnip/lively-otter'')"
    by (simp add: detachedHeadBranch_def)
  have C: "IsCatnipBranch full_world ''catnip/lively-otter''"
    by (simp add: full_world_def example_world_def)
  have L: "CreateCompletion full_world cs ''/workspace/foo/alpha'' t
      = Inr (Some ''feature/login-flow'')" for cs t
    by (simp add: full_world_def example_world_def)
  show "\<not> taken (taken_names ''feature/login-flow'') ''feature/login-flow-100''"
    using variant_100_free by (simp add: taken_def)
  show "resolveCollisions (taken_names ''feature/login-flow'') ''feature/login-flow'' = None"
    by (rule resolveCollisions_all_taken)
  show "calls (snd (checkAndRenameBranch (example_manager ''/workspace/foo/alpha'' ''Add login flow'')
        full_world ''Add login flow'')) = [?rp]"
    unfolding checkAndRenameBranch_def example_title_clean Let_def
    by (simp add: example_manager_def P example_head_trimmed [simplified] D C L example_suggestion_trimmed example_suggestion_valid example_branchExists resolveCollisions_all_taken)
  have M: "checkpointManagers (example_service ''/workspace/foo/alpha'' ''Add login flow'')
      ''/workspace/foo/alpha'' = Some 0"
    by (simp add: example_service_def)
  have T: "TriggerBranchRename (example_service ''/workspace/foo/alpha'' ''Add login flow'') full_world
        ''/workspace/foo/alpha'' ''feature/login-flow'' =
      (full_world\<lparr>calls := [?rp]\<rparr>, Inl (TooManySimilarBranches ''feature/login-flow''))"
    unfolding TriggerBranchRename_def M Let_def
    by (simp add: P example_head_trimmed [simplified] example_suggestion_valid example_branchExists resolveCollisions_all_taken)
  show "snd (TriggerBranchRename (example_service ''/workspace/foo/alpha'' ''Add login flow'') full_world
        ''/workspace/foo/alpha'' ''feature/login-flow'') =
     Inl (TooManySimilarBranches ''feature/login-flow'')"
    by (simp add: T)
  show "calls (fst (TriggerBranchRename (example_service ''/workspace/foo/alpha'' ''Add login flow'') full_world
        ''/workspace/foo/alpha'' ''feature/login-flow'')) = [?rp]"
    by (simp add: T)
qed

section \<open>Facts about title events\<close>

lemma recordTitleEvent_fresh:
  assumes "recentTitles s (d @ '':'' @ t) = None"
  shows "snd (recordTitleEvent s d t src c) = True"
    and "recentTitles (fst (recordTitleEvent s d t src c)) (d @ '':'' @ t) =
           Some \<lparr>event_title = t, event_timestamp = now_record c, event_source = src\<rparr>"
  using assms by (simp_all add: recordTitleEvent_def Let_def evictOld_def)


lemma handleTitleChange_forwarded:
  "snd (handleTitleChange s d t src c) \<noteq> None \<longleftrightarrow> snd (recordTitleEvent s d t src c)"
  by (cases "recordTitleEvent s d t src c"; cases "snd (recordTitleEvent s d t src c)")
     (auto simp: handleTitleChange_def split: prod.splits)


section \<open>Claims about title deduplication\<close>




section \<open>Facts about the managers of the service\<close>

lemma managers_consistent_init: "managers_consistent (NewClaudeMonitorService g)"
  by (simp add: managers_consistent_def NewClaudeMonitorService_def)

lemma recordTitleEvent_managers:
  "managers (fst (recordTitleEvent s d t src c)) = managers s"
  "checkpointManagers (fst (recordTitleEvent s d t src c)) = checkpointManagers s"
  by (simp_all add: recordTitleEvent_def Let_def split: option.splits)

lemma obtainManager_consistent:
  assumes "managers_consistent s"
  shows "managers_consistent (fst (obtainManager s d))"
proof (cases "checkpointManagers s d")
  case (Some r)
  with assms show ?thesis by (simp add: obtainManager_def)
next
  case None
  let ?n = "length (managers s)"
  let ?m = "createCheckpointManager s d"
  have wd: "workDir ?m = d"
    by (simp add: createCheckpointManager_def)
  from assms have dist: "distinct (map workDir (managers s))"
    and iff: "\<And>p r. checkpointManagers s p = Some r \<longleftrightarrow>
        r < ?n \<and> workDir (managers s ! r) = p"
    by (auto simp: managers_consistent_def)
  have fresh: "d \<notin> set (map workDir (managers s))"
  proof
    assume "d \<in> set (map workDir (managers s))"
    then obtain r where "r < ?n" "workDir (managers s ! r) = d"
      by (auto simp: in_set_conv_nth)
    with iff [of d r] None show False by simp
  qed
  have s': "fst (obtainManager s d) =
      s\<lparr>managers := managers s @ [?m], checkpointManagers := (checkpointManagers s)(d \<mapsto> ?n)\<rparr>"
    using None by (simp add: obtainManager_def Let_def)
  have "distinct (map workDir (managers s @ [?m]))"
    using dist fresh wd by simp
  moreover have "((checkpointManagers s)(d \<mapsto> ?n)) p = Some r \<longleftrightarrow>
      r < length (managers s @ [?m]) \<and> workDir ((managers s @ [?m]) ! r) = p" for p r
  proof (cases "r < ?n")
    case True
    then have "workDir (managers s ! r) \<in> set (map workDir (managers s))"
      by simp
    with fresh have "workDir (managers s ! r) \<noteq> d"
      by blast
    with True iff [of p r] show ?thesis
      by (auto simp: nth_append)
  next
    case False
    with iff [of p r] have "checkpointManagers s p \<noteq> Some r" by simp
    with False wd show ?thesis
      by (auto simp: nth_append less_Suc_eq)
  qed
  ultimately show ?thesis
    unfolding s' managers_consistent_def by simp
qed

lemma step_service_consistent:
  "managers_consistent s \<Longrightarrow> managers_consistent (step_service s x)"
proof (cases x)
  case (RecordStep d t src c)
  assume "managers_consistent s"
  then show ?thesis
    unfolding RecordStep by (simp add: managers_consistent_def recordTitleEvent_managers)
next
  case (ManagerStep d)
  assume "managers_consistent s"
  then show ?thesis
    unfolding ManagerStep by (simp add: obtainManager_consistent)
qed

lemma run_steps_snoc: "run_steps s (steps @ [x]) = step_service (run_steps s steps) x"
  by (simp add: run_steps_def)

lemma run_steps_consistent:
  "managers_consistent s \<Longrightarrow> managers_consistent (run_steps s steps)"
  by (induction steps rule: rev_induct) (simp_all add: run_steps_def step_service_consistent)

lemma obtainManager_dom:
  "dom (checkpointManagers (fst (obtainManager s d))) = insert d (dom (checkpointManagers s))"
  by (cases "checkpointManagers s d") (auto simp: obtainManager_def Let_def)

lemma step_service_dom:
  "dom (checkpointManagers (step_service s x)) =
     dom (checkpointManagers s) \<union> (case x of ManagerStep d \<Rightarrow> {d} | _ \<Rightarrow> {})"
  by (cases x) (simp_all add: obtainManager_dom recordTitleEvent_managers)

lemma run_steps_dom:
  "dom (checkpointManagers (run_steps s steps)) =
     dom (checkpointManagers s) \<union> {d. ManagerStep d \<in> set steps}"
proof (induction steps rule: rev_induct)
  case Nil
  then show ?case by (simp add: run_steps_def)
next
  case (snoc x xs)
  show ?case
    unfolding run_steps_snoc step_service_dom snoc
    by (cases x) auto
qed

lemma distinct_filter_le_1:
  "distinct (map f xs) \<Longrightarrow> length (filter (\<lambda>x. f x = a) xs) \<le> 1"
proof (induction xs)
  case Nil
  then show ?case by simp
next
  case (Cons x xs)
  show ?case
  proof (cases "f x = a")
    case True
    with Cons.prems have "a \<notin> f ` set xs" by auto
    then have "filter (\<lambda>x. f x = a) xs = []"
      by (auto simp: filter_empty_conv)
    with True show ?thesis by simp
  next
    case False
    with Cons show ?thesis by simp
  qed
qed

lemma handleTitleChange_steps:
  "fst (handleTitleChange s d t src c) =
     run_steps s (if snd (recordTitleEvent s d t src c)
                  then [RecordStep d t src c, ManagerStep d] else [RecordStep d t src c])"
  by (cases "recordTitleEvent s d t src c"; cases "snd (recordTitleEvent s d t src c)")
     (auto simp: handleTitleChange_def run_steps_def split: prod.splits)

lemma handle_events_consistent:
  "managers_consistent s \<Longrightarrow> managers_consistent (handle_events s events)"
proof (induction s events rule: handle_events.induct)
  case (1 s)
  then show ?case by simp
next
  case (2 s dir newTitle source clk events)
  then show ?case
    by (simp add: handleTitleChange_steps run_steps_consistent del: if_split)
qed

text \<open>
  After any sequence of critical sections of \<^verbatim>\<open>handleTitleChange\<close> calls, in any
  interleaving, starting from a new service: at most one of the managers created has a
  given worktree path; the map points to a manager under a path exactly when that
  manager was created for that path; and a path has a manager exactly when a call for
  that path has reached the second section. The same bound holds after any sequence of
  whole calls.
\<close>

lemma one_manager_per_worktree:
  "length (filter (\<lambda>m. workDir m = p) (managers (run_steps (NewClaudeMonitorService g) steps))) \<le> 1 \<and>
   (checkpointManagers (run_steps (NewClaudeMonitorService g) steps) p = Some r \<longleftrightarrow>
      r < length (managers (run_steps (NewClaudeMonitorService g) steps)) \<and>
      workDir (managers (run_steps (NewClaudeMonitorService g) steps) ! r) = p) \<and>
   (p \<in> dom (checkpointManagers (run_steps (NewClaudeMonitorService g) steps)) \<longleftrightarrow>
      ManagerStep p \<in> set steps) \<and>
   length (filter (\<lambda>m. workDir m = p) (managers (handle_events (NewClaudeMonitorService g) events))) \<le> 1"
proof -
  have c: "managers_consistent (run_steps (NewClaudeMonitorService g) steps)"
    by (rule run_steps_consistent [OF managers_consistent_init])
  have e: "managers_consistent (handle_events (NewClaudeMonitorService g) events)"
    by (rule handle_events_consistent [OF managers_consistent_init])
  have d: "dom (checkpointManagers (run_steps (NewClaudeMonitorService g) steps)) =
      {d. ManagerStep d \<in> set steps}"
    by (simp add: run_steps_dom NewClaudeMonitorService_def)
  have 1: "length (filter (\<lambda>m. workDir m = p)
      (managers (run_steps (NewClaudeMonitorService g) steps))) \<le> 1"
    using c unfolding managers_consistent_def by (intro distinct_filter_le_1) blast
  have 2: "checkpointManagers (run_steps (NewClaudeMonitorService g) steps) p = Some r \<longleftrightarrow>
      r < length (managers (run_steps (NewClaudeMonitorService g) steps)) \<and>
      workDir (managers (run_steps (NewClaudeMonitorService g) steps) ! r) = p"
    using c unfolding managers_consistent_def by blast
  have 3: "p \<in> dom (checkpointManagers (run_steps (NewClaudeMonitorService g) steps)) \<longleftrightarrow>
      ManagerStep p \<in> set steps"
    unfolding d by simp
  have 4: "length (filter (\<lambda>m. workDir m = p)
      (managers (handle_events (NewClaudeMonitorService g) events))) \<le> 1"
    using e unfolding managers_consistent_def by (intro distinct_filter_le_1) blast
  from 1 2 3 4 show ?thesis by blast
qed

text \<open>
  Two interleaved calls for one worktree: both run their first section before either
  runs its second; one manager is created, at position 0.
\<close>

lemma one_manager_per_worktree_example:
  "length (filter (\<lambda>m. workDir m = ''/workspace/foo/alpha'')
     (managers (run_steps (NewClaudeMonitorService True)
        [RecordStep ''/workspace/foo/alpha'' ''Add login flow'' ''log'' (clock_at 0),
         RecordStep ''/workspace/foo/alpha'' ''Refactor cache'' ''pty'' (clock_at 1),
         ManagerStep ''/workspace/foo/alpha'', ManagerStep ''/workspace/foo/alpha'']))) \<le> 1 \<and>
   checkpointManagers (run_steps (NewClaudeMonitorService True)
        [RecordStep ''/workspace/foo/alpha'' ''Add login flow'' ''log'' (clock_at 0),
         RecordStep ''/workspace/foo/alpha'' ''Refactor cache'' ''pty'' (clock_at 1),
         ManagerStep ''/workspace/foo/alpha'', ManagerStep ''/workspace/foo/alpha''])
      ''/workspace/foo/alpha'' = Some 0"
  using one_manager_per_worktree [of "''/workspace/foo/alpha''" True
        "[RecordStep ''/workspace/foo/alpha'' ''Add login flow'' ''log'' (clock_at 0),
         RecordStep ''/workspace/foo/alpha'' ''Refactor cache'' ''pty'' (clock_at 1),
         ManagerStep ''/workspace/foo/alpha'', ManagerStep ''/workspace/foo/alpha'']" 0 "[]"]
  by (simp add: run_steps_def recordTitleEvent_def obtainManager_def evictOld_def Let_def
      NewClaudeMonitorService_def createCheckpointManager_def clock_at_def Second_def)

text \<open>
  Whole calls. A call that drops its event leaves the managers and the map as they
  are. A call that forwards its event returns the manager of its path: the one the map
  already holds, with nothing created, or a new one, appended to the managers and
  entered in the map under the path. An event is forwarded whenever no event is
  remembered under its key, the path and the title joined by \<^verbatim>\<open>:\<close>.
\<close>

lemma createCheckpointManager_recent [simp]:
  "createCheckpointManager (s\<lparr>recentTitles := x\<rparr>) d = createCheckpointManager s d"
  by (simp add: createCheckpointManager_def)

lemma recordTitleEvent_gitService:
  "svc_gitService (fst (recordTitleEvent s d t src c)) = svc_gitService s"
  by (simp add: recordTitleEvent_def Let_def split: option.splits)

lemma handleTitleChange_dropped:
  assumes "snd (handleTitleChange s d t src c) = None"
  shows "managers (fst (handleTitleChange s d t src c)) = managers s \<and>
         checkpointManagers (fst (handleTitleChange s d t src c)) = checkpointManagers s"
proof -
  obtain s1 f where r: "recordTitleEvent s d t src c = (s1, f)"
    by (cases "recordTitleEvent s d t src c")
  with assms have "\<not> f"
    by (cases f) (auto simp: handleTitleChange_def split: prod.splits)
  with r have "fst (handleTitleChange s d t src c) = fst (recordTitleEvent s d t src c)"
    by (simp add: handleTitleChange_def)
  then show ?thesis
    by (simp add: recordTitleEvent_managers)
qed

lemma handleTitleChange_forwarded_existing:
  assumes "snd (handleTitleChange s d t src c) \<noteq> None" and "checkpointManagers s d = Some r"
  shows "snd (handleTitleChange s d t src c) = Some r \<and>
         managers (fst (handleTitleChange s d t src c)) = managers s \<and>
         checkpointManagers (fst (handleTitleChange s d t src c)) = checkpointManagers s"
proof -
  obtain s1 f where r: "recordTitleEvent s d t src c = (s1, f)"
    by (cases "recordTitleEvent s d t src c")
  with assms(1) have f: "f"
    by (cases f) (auto simp: handleTitleChange_def)
  from r have s1: "managers s1 = managers s" "checkpointManagers s1 = checkpointManagers s"
    using recordTitleEvent_managers [of s d t src c] by simp_all
  with assms(2) have "obtainManager s1 d = (s1, r)"
    by (simp add: obtainManager_def)
  with r f s1 show ?thesis
    by (simp add: handleTitleChange_def)
qed

lemma handleTitleChange_forwarded_new:
  assumes "snd (handleTitleChange s d t src c) \<noteq> None" and "checkpointManagers s d = None"
  shows "snd (handleTitleChange s d t src c) = Some (length (managers s)) \<and>
         managers (fst (handleTitleChange s d t src c)) =
           managers s @ [createCheckpointManager s d] \<and>
         checkpointManagers (fst (handleTitleChange s d t src c)) =
           (checkpointManagers s)(d \<mapsto> length (managers s))"
proof -
  obtain s1 f where r: "recordTitleEvent s d t src c = (s1, f)"
    by (cases "recordTitleEvent s d t src c")
  with assms(1) have f: "f"
    by (cases f) (auto simp: handleTitleChange_def)
  from r have s1: "managers s1 = managers s" "checkpointManagers s1 = checkpointManagers s"
    "svc_gitService s1 = svc_gitService s"
    using recordTitleEvent_managers [of s d t src c] recordTitleEvent_gitService [of s d t src c]
    by simp_all
  then have m: "createCheckpointManager s1 d = createCheckpointManager s d"
    by (simp add: createCheckpointManager_def)
  from assms(2) s1 have "obtainManager s1 d =
      (s1\<lparr>managers := managers s @ [createCheckpointManager s d],
          checkpointManagers := (checkpointManagers s)(d \<mapsto> length (managers s))\<rparr>,
       length (managers s))"
    by (simp add: obtainManager_def Let_def m)
  with r f show ?thesis
    by (simp add: handleTitleChange_def)
qed

lemma handleTitleChange_fresh_key_forwarded:
  "recentTitles s (d @ '':'' @ t) = None \<Longrightarrow> snd (handleTitleChange s d t src c) \<noteq> None"
  using recordTitleEvent_fresh(1) [of s d t src c] handleTitleChange_forwarded [of s d t src c]
  by blast

section \<open>Claims about the managers of the service\<close>

text \<open>
  C5, at two paths whose keys coincide. The first event, for \<^verbatim>\<open>/workspace/a\<close> with
  the title \<^verbatim>\<open>b:c\<close>, is forwarded and creates the manager of that worktree lazily. One
  second later the first event ever for the worktree \<^verbatim>\<open>/workspace/a:b\<close> arrives, with
  the title \<^verbatim>\<open>c\<close>: its key \<^verbatim>\<open>/workspace/a:b:c\<close> is the key of the remembered event, so
  it is dropped as a replayed log line, and the unseen path is left without a manager.
  The map never holds more than one manager for a path, but here the first event for an
  unseen path creates none.
\<close>

theorem first_event_dropped_on_key_collision:
  "snd (handleTitleChange (NewClaudeMonitorService True)
      ''/workspace/a'' ''b:c'' ''log'' (clock_at 0)) = Some 0 \<and>
   checkpointManagers (fst (handleTitleChange (NewClaudeMonitorService True)
      ''/workspace/a'' ''b:c'' ''log'' (clock_at 0))) ''/workspace/a'' = Some 0 \<and>
   checkpointManagers (fst (handleTitleChange (NewClaudeMonitorService True)
      ''/workspace/a'' ''b:c'' ''log'' (clock_at 0))) ''/workspace/a:b'' = None \<and>
   snd (handleTitleChange (fst (handleTitleChange (NewClaudeMonitorService True)
      ''/workspace/a'' ''b:c'' ''log'' (clock_at 0)))
      ''/workspace/a:b'' ''c'' ''log'' (clock_at 1000000000)) = None \<and>
   checkpointManagers (fst (handleTitleChange (fst (handleTitleChange (NewClaudeMonitorService True)
      ''/workspace/a'' ''b:c'' ''log'' (clock_at 0)))
      ''/workspace/a:b'' ''c'' ''log'' (clock_at 1000000000))) ''/workspace/a:b'' = None \<and>
   map workDir (managers (fst (handleTitleChange (fst (handleTitleChange (NewClaudeMonitorService True)
      ''/workspace/a'' ''b:c'' ''log'' (clock_at 0)))
      ''/workspace/a:b'' ''c'' ''log'' (clock_at 1000000000)))) = [''/workspace/a'']"
  by (simp add: handleTitleChange_def recordTitleEvent_def obtainManager_def evictOld_def
      NewClaudeMonitorService_def clock_at_def Second_def Let_def createCheckpointManager_def)

section \<open>Facts about the startup cleanup\<close>

lemma safe_to_delete_calls [simp]:
  "safe_to_delete (w\<lparr>calls := x\<rparr>) h path b = safe_to_delete w h path b"
  by (simp add: safe_to_delete_def)

lemma safe_deletions_calls [simp]:
  "safe_deletions (w\<lparr>calls := x\<rparr>) h cs = safe_deletions w h cs"
  by (induction cs arbitrary: h) (simp_all split: call.splits)

lemma safe_deletions_append:
  "safe_deletions w h (cs1 @ cs2) \<longleftrightarrow> safe_deletions w h cs1 \<and> safe_deletions w (h @ cs1) cs2"
  by (induction cs1 arbitrary: h) auto

lemma findBaseRef_found:
  "findBaseRef w p refs \<noteq> [] \<Longrightarrow>
     findBaseRef w p refs \<in> set refs \<and> ShowRef w (calls w) p (findBaseRef w p refs)"
  by (induction refs) (auto split: if_splits)

lemma cleanupBranch_safe:
  "\<exists>cs. fst (cleanupBranch w repo br) = w\<lparr>calls := calls w @ cs\<rparr> \<and>
        safe_deletions w (calls w) cs"
proof -
  define b where
    "b = TrimPrefix (TrimSpace (TrimPrefix (TrimPrefix (TrimSpace br) ''*'') ''+'')) ''remotes/origin/''"
  define base where "base = findBaseRef w (Path repo) [''main'', ''master'']"
  define skip where "skip = (case ListWorktrees w (calls w) (Path repo) of
      Inl err \<Rightarrow> False | Inr worktrees \<Rightarrow> list_ex (\<lambda>wt. Branch wt = b) worktrees)"
  define deletes where "deletes \<longleftrightarrow> IsCatnipBranch w b \<and> base \<noteq> [] \<and>
      BranchExists w (calls w) (Path repo) b False \<and>
      GetCommitCount w (calls w) (Path repo) base b = Inr 0 \<and> \<not> skip"
  have E: "cleanupBranch w repo br =
     (if \<not> IsCatnipBranch w b then (w, False)
      else if base = [] then (w, False)
      else if \<not> BranchExists w (calls w) (Path repo) b False then (w, False)
      else (case GetCommitCount w (calls w) (Path repo) base b of
              Inl err \<Rightarrow> (w, False)
            | Inr commitCount \<Rightarrow>
                if commitCount > 0 then (w, False)
                else if skip then (w, False)
                else (case perform w (DeleteBranch (Path repo) b True) of
                        (w1, output, None) \<Rightarrow> (w1, True)
                      | (w1, output, Some err) \<Rightarrow> (w1, False))))"
    unfolding cleanupBranch_def Let_def b_def base_def skip_def by (rule refl)
  show ?thesis
  proof (cases deletes)
    case True
    then have d: "IsCatnipBranch w b" "base \<noteq> []" "BranchExists w (calls w) (Path repo) b False"
      "GetCommitCount w (calls w) (Path repo) base b = Inr 0" "\<not> skip"
      by (simp_all add: deletes_def)
    have "fst (cleanupBranch w repo br) = w\<lparr>calls := calls w @ [DeleteBranch (Path repo) b True]\<rparr>"
      unfolding E using d by (simp add: perform_def split: prod.splits option.splits)
    moreover have "base \<in> set [''main'', ''master''] \<and> ShowRef w (calls w) (Path repo) base"
      using d(2) findBaseRef_found [of w "Path repo" "[''main'', ''master'']"]
      unfolding base_def by blast
    then have "list_ex (\<lambda>base. ShowRef w (calls w) (Path repo) base \<and>
        GetCommitCount w (calls w) (Path repo) base b = Inr 0) [''main'', ''master'']"
      using d(4) unfolding list_ex_iff by blast
    then have "safe_to_delete w (calls w) (Path repo) b"
      using d unfolding safe_to_delete_def skip_def
      by (auto simp: list_ex_iff split: sum.splits)
    ultimately show ?thesis
      by (intro exI [of _ "[DeleteBranch (Path repo) b True]"]) simp
  next
    case False
    have "fst (cleanupBranch w repo br) = w"
    proof (cases "GetCommitCount w (calls w) (Path repo) base b")
      case (Inl e)
      then show ?thesis unfolding E by simp
    next
      case (Inr n)
      with False show ?thesis unfolding E deletes_def by auto
    qed
    then show ?thesis
      by (intro exI [of _ "[]"]) simp
  qed
qed

lemma cleanupBranches_safe:
  "\<exists>cs. fst (cleanupBranches w repo branches n) = w\<lparr>calls := calls w @ cs\<rparr> \<and>
        safe_deletions w (calls w) cs"
proof (induction branches arbitrary: w n)
  case Nil
  show ?case by (intro exI [of _ "[]"]) simp
next
  case (Cons br branches)
  obtain cs1 where 1: "fst (cleanupBranch w repo br) = w\<lparr>calls := calls w @ cs1\<rparr>"
    and s1: "safe_deletions w (calls w) cs1"
    using cleanupBranch_safe by blast
  obtain w1 dl where c: "cleanupBranch w repo br = (w1, dl)"
    by (cases "cleanupBranch w repo br")
  with 1 have w1: "w1 = w\<lparr>calls := calls w @ cs1\<rparr>" by simp
  from Cons [of w1 "if dl then n + 1 else n"] obtain cs2 where
    2: "fst (cleanupBranches w1 repo branches (if dl then n + 1 else n)) = w1\<lparr>calls := calls w1 @ cs2\<rparr>"
    and s2: "safe_deletions w1 (calls w1) cs2"
    by blast
  have "fst (cleanupBranches w repo (br # branches) n) = w\<lparr>calls := calls w @ (cs1 @ cs2)\<rparr>"
    using c 2 by (simp add: w1)
  moreover have "safe_deletions w (calls w) (cs1 @ cs2)"
    using s1 s2 by (simp add: safe_deletions_append w1)
  ultimately show ?case by blast
qed

lemma cleanupRepos_safe:
  "\<exists>cs. fst (cleanupRepos w repos n) = w\<lparr>calls := calls w @ cs\<rparr> \<and>
        safe_deletions w (calls w) cs"
proof (induction repos arbitrary: w n)
  case Nil
  show ?case by (intro exI [of _ "[]"]) simp
next
  case (Cons repo repos)
  show ?case
  proof (cases "ListBranches w (calls w) (Path repo)")
    case (Inl e)
    with Cons [of w n] show ?thesis by simp
  next
    case (Inr branches)
    obtain cs1 where 1: "fst (cleanupBranches w repo branches 0) = w\<lparr>calls := calls w @ cs1\<rparr>"
      and s1: "safe_deletions w (calls w) cs1"
      using cleanupBranches_safe by blast
    obtain w1 k where c: "cleanupBranches w repo branches 0 = (w1, k)"
      by (cases "cleanupBranches w repo branches 0")
    with 1 have w1: "w1 = w\<lparr>calls := calls w @ cs1\<rparr>" by simp
    from Cons [of w1 "n + k"] obtain cs2 where
      2: "fst (cleanupRepos w1 repos (n + k)) = w1\<lparr>calls := calls w1 @ cs2\<rparr>"
      and s2: "safe_deletions w1 (calls w1) cs2"
      by blast
    have "fst (cleanupRepos w (repo # repos) n) = w\<lparr>calls := calls w @ (cs1 @ cs2)\<rparr>"
      using Inr c 2 by (simp add: w1)
    moreover have "safe_deletions w (calls w) (cs1 @ cs2)"
      using s1 s2 by (simp add: safe_deletions_append w1)
    ultimately show ?thesis by blast
  qed
qed

lemma safe_deletions_nth:
  "safe_deletions w h cs \<Longrightarrow> i < length cs \<Longrightarrow>
     \<exists>path b. cs ! i = DeleteBranch path b True \<and> safe_to_delete w (h @ take i cs) path b"
proof (induction cs arbitrary: h i)
  case Nil
  then show ?case by simp
next
  case (Cons c cs)
  show ?case
  proof (cases i)
    case 0
    with Cons.prems show ?thesis by (cases c) auto
  next
    case (Suc j)
    with Cons.prems have "safe_deletions w (h @ [c]) cs" "j < length cs" by auto
    from Cons.IH [OF this] Suc show ?thesis by simp
  qed
qed

lemma cleanup_example:
  "calls (fst (cleanupUnusedBranches cleanup_world cleanup_repos)) =
     [DeleteBranch ''/workspace/catnip.git'' ''catnip/lively-otter'' True]"
proof -
  have n1: "TrimPrefix (TrimSpace (TrimPrefix (TrimPrefix (TrimSpace ''  catnip/lively-otter'') ''*'') ''+''))
      ''remotes/origin/'' = ''catnip/lively-otter''"
    by code_simp
  have n2: "TrimPrefix (TrimSpace (TrimPrefix (TrimPrefix (TrimSpace ''* main'') ''*'') ''+''))
      ''remotes/origin/'' = ''main''"
    by code_simp
  have b1: "cleanupBranch cleanup_world (hd cleanup_repos) ''  catnip/lively-otter'' =
      (cleanup_world\<lparr>calls := [DeleteBranch ''/workspace/catnip.git'' ''catnip/lively-otter'' True]\<rparr>, True)"
    unfolding cleanupBranch_def Let_def n1
    by (simp add: cleanup_world_def cleanup_repos_def example_world_def all_succeed_def perform_def)
  have b2: "cleanupBranch (cleanup_world\<lparr>calls := cs\<rparr>) (hd cleanup_repos) ''* main'' =
      (cleanup_world\<lparr>calls := cs\<rparr>, False)" for cs
    unfolding cleanupBranch_def Let_def n2
    by (simp add: cleanup_world_def cleanup_repos_def example_world_def)
  have l: "ListBranches cleanup_world [] ''/workspace/catnip.git'' = Inr [''  catnip/lively-otter'', ''* main'']"
    by (simp add: cleanup_world_def)
  have c: "calls cleanup_world = []"
    by (simp add: cleanup_world_def example_world_def)
  have r: "cleanup_repos = [hd cleanup_repos]" "Path (hd cleanup_repos) = ''/workspace/catnip.git''"
    by (simp_all add: cleanup_repos_def)
  show ?thesis
    unfolding cleanupUnusedBranches_def
    by (subst r(1)) (simp add: r(2) c l b1 b2)
qed

section \<open>Claims about the startup cleanup\<close>

text \<open>
  C10. The cleanup leaves the earlier calls as they are, and every call it makes is a
  forced \<^verbatim>\<open>DeleteBranch\<close> of a branch that, in the world as it is when the call is made,
  satisfies the scratch-branch predicate, has a base branch (\<^verbatim>\<open>main\<close> or \<^verbatim>\<open>master\<close>)
  over which it has zero commits, exists locally, and is not the branch of any listed
  worktree. A branch that fails one of these conditions is therefore never deleted by
  the pass.
\<close>

theorem cleanup_deletes_only_safe_branches:
  assumes "length (calls w) \<le> i"
    and "i < length (calls (fst (cleanupUnusedBranches w repos)))"
  shows "take (length (calls w)) (calls (fst (cleanupUnusedBranches w repos))) = calls w \<and>
    (\<exists>path b. calls (fst (cleanupUnusedBranches w repos)) ! i = DeleteBranch path b True \<and>
       safe_to_delete w (take i (calls (fst (cleanupUnusedBranches w repos)))) path b)"
proof -
  obtain cs where 1: "fst (cleanupUnusedBranches w repos) = w\<lparr>calls := calls w @ cs\<rparr>"
    and s: "safe_deletions w (calls w) cs"
    using cleanupRepos_safe unfolding cleanupUnusedBranches_def by blast
  from assms have i: "i - length (calls w) < length cs"
    by (simp add: 1)
  from safe_deletions_nth [OF s i] obtain path b where
    "cs ! (i - length (calls w)) = DeleteBranch path b True"
    "safe_to_delete w (calls w @ take (i - length (calls w)) cs) path b"
    by blast
  with assms(1) show ?thesis
    by (simp add: 1 nth_append)
qed

text \<open>
  The theorem at the first call of a cleanup that finds one unused scratch branch.
\<close>

theorem cleanup_deletes_only_safe_branches_witness:
  "length (calls cleanup_world) \<le> 0 \<and>
   0 < length (calls (fst (cleanupUnusedBranches cleanup_world cleanup_repos))) \<and>
   calls (fst (cleanupUnusedBranches cleanup_world cleanup_repos)) ! 0 =
     DeleteBranch ''/workspace/catnip.git'' ''catnip/lively-otter'' True \<and>
   safe_to_delete cleanup_world [] ''/workspace/catnip.git'' ''catnip/lively-otter''"
proof -
  have c: "calls cleanup_world = []"
    by (simp add: cleanup_world_def example_world_def)
  show ?thesis
    using cleanup_deletes_only_safe_branches [of cleanup_world 0 cleanup_repos]
    by (simp add: cleanup_example c)
qed

end
